theory Spec2Isabelle
  imports Main
begin

section \<open>ECMAScript time values\<close>

text \<open>
  A JavaScript \<^verbatim>\<open>Date\<close> wraps a time value: a number of milliseconds. The getters
  and setters the components call (\<^verbatim>\<open>getDate\<close>, \<^verbatim>\<open>setMonth\<close>, ...) work on local
  time. The model fixes a time zone with a constant offset (no daylight-saving
  transitions) and takes the time value directly as local milliseconds, so that
  \<^verbatim>\<open>LocalTime(t) = t\<close>. Only valid dates are modelled (no \<^verbatim>\<open>Invalid Date\<close>).
  The definitions follow the abstract operations of the ECMAScript specification
  (Day, TimeWithinDay, DaysInYear, DayFromYear, YearFromTime, MonthFromTime,
  DateFromTime, WeekDay, MakeTime, MakeDay, MakeDate).
\<close>

type_synonym Date = int

definition msPerDay :: int where
  "msPerDay = 86400000"

definition Day :: "int \<Rightarrow> int" where
  "Day t = t div msPerDay"

definition TimeWithinDay :: "int \<Rightarrow> int" where
  "TimeWithinDay t = t mod msPerDay"

definition DaysInYear :: "int \<Rightarrow> int" where
  "DaysInYear y =
     (if y mod 4 \<noteq> 0 then 365
      else if y mod 100 \<noteq> 0 then 366
      else if y mod 400 \<noteq> 0 then 365
      else 366)"

definition DayFromYear :: "int \<Rightarrow> int" where
  "DayFromYear y =
     365 * (y - 1970) + (y - 1969) div 4 - (y - 1901) div 100 + (y - 1601) div 400"

text \<open>
  ECMAScript defines \<^verbatim>\<open>YearFromTime(t)\<close> as the largest year \<open>y\<close> whose first day
  is not after \<open>t\<close>. The executable form below starts from the estimate
  \<open>1970 + 400 d / 146097\<close> (a 400-year cycle has 146097 days), which is off by at most
  one; lemma \<open>YearFromTime_largest\<close> proves that it computes the year of the
  specification.
\<close>

definition YearFromTime :: "int \<Rightarrow> int" where
  "YearFromTime t =
     (let d = Day t; y = 1970 + (400 * d) div 146097 in
      if DayFromYear (y + 1) \<le> d then y + 1
      else if DayFromYear y \<le> d then y
      else y - 1)"

definition InLeapYear :: "int \<Rightarrow> int" where
  "InLeapYear t = (if DaysInYear (YearFromTime t) = 366 then 1 else 0)"

definition DayWithinYear :: "int \<Rightarrow> int" where
  "DayWithinYear t = Day t - DayFromYear (YearFromTime t)"

definition MonthFromTime :: "int \<Rightarrow> int" where
  "MonthFromTime t =
     (let d = DayWithinYear t; l = InLeapYear t in
      if d < 31 then 0
      else if d < 59 + l then 1
      else if d < 90 + l then 2
      else if d < 120 + l then 3
      else if d < 151 + l then 4
      else if d < 181 + l then 5
      else if d < 212 + l then 6
      else if d < 243 + l then 7
      else if d < 273 + l then 8
      else if d < 304 + l then 9
      else if d < 334 + l then 10
      else 11)"

definition DateFromTime :: "int \<Rightarrow> int" where
  "DateFromTime t =
     (let d = DayWithinYear t; l = InLeapYear t; m = MonthFromTime t in
      if m = 0 then d + 1
      else if m = 1 then d - 30
      else if m = 2 then d - 58 - l
      else if m = 3 then d - 89 - l
      else if m = 4 then d - 119 - l
      else if m = 5 then d - 150 - l
      else if m = 6 then d - 180 - l
      else if m = 7 then d - 211 - l
      else if m = 8 then d - 242 - l
      else if m = 9 then d - 272 - l
      else if m = 10 then d - 303 - l
      else d - 333 - l)"

definition WeekDay :: "int \<Rightarrow> int" where
  "WeekDay t = (Day t + 4) mod 7"

definition HourFromTime :: "int \<Rightarrow> int" where
  "HourFromTime t = (t div 3600000) mod 24"

definition MinFromTime :: "int \<Rightarrow> int" where
  "MinFromTime t = (t div 60000) mod 60"

definition SecFromTime :: "int \<Rightarrow> int" where
  "SecFromTime t = (t div 1000) mod 60"

definition msFromTime :: "int \<Rightarrow> int" where
  "msFromTime t = t mod 1000"

definition MakeTime :: "int \<Rightarrow> int \<Rightarrow> int \<Rightarrow> int \<Rightarrow> int" where
  "MakeTime hour minute sec ms = hour * 3600000 + minute * 60000 + sec * 1000 + ms"

text \<open>
  \<open>MonthStartDay mn l\<close> is the day within the year of the first day of month \<open>mn\<close>
  (0 = January), for the leap flag \<open>l\<close>: the thresholds of \<^verbatim>\<open>MonthFromTime\<close>.
\<close>

definition MonthStartDay :: "int \<Rightarrow> int \<Rightarrow> int" where
  "MonthStartDay mn l =
     (if mn = 0 then 0
      else if mn = 1 then 31
      else if mn = 2 then 59 + l
      else if mn = 3 then 90 + l
      else if mn = 4 then 120 + l
      else if mn = 5 then 151 + l
      else if mn = 6 then 181 + l
      else if mn = 7 then 212 + l
      else if mn = 8 then 243 + l
      else if mn = 9 then 273 + l
      else if mn = 10 then 304 + l
      else 334 + l)"

text \<open>
  \<^verbatim>\<open>MakeDay(year, month, date)\<close>: the month may lie outside 0..11 and the date outside
  the month; both carry over. It is the day number of the first day of month
  \<open>month mod 12\<close> of year \<open>year + floor(month / 12)\<close>, plus \<open>date - 1\<close>.
\<close>

definition MakeDay :: "int \<Rightarrow> int \<Rightarrow> int \<Rightarrow> int" where
  "MakeDay year month date =
     (let ym = year + month div 12; mn = month mod 12 in
      DayFromYear ym + MonthStartDay mn (if DaysInYear ym = 366 then 1 else 0) + date - 1)"

definition MakeDate :: "int \<Rightarrow> int \<Rightarrow> int" where
  "MakeDate dy time = dy * msPerDay + time"

text \<open>
  \<open>monthNumber t\<close> numbers the months consecutively (12 times the year, plus the month),
  and \<open>firstOfMonth k\<close> is the day number of the first day of the month with index
  \<open>k\<close>.
\<close>

definition monthNumber :: "int \<Rightarrow> int" where
  "monthNumber t = 12 * YearFromTime t + MonthFromTime t"

definition firstOfMonth :: "int \<Rightarrow> int" where
  "firstOfMonth k = MakeDay 0 k 1"

section \<open>The methods of Date\<close>

text \<open>\<^verbatim>\<open>new Date(year, monthIndex, day)\<close>: local midnight of that day.\<close>

definition newDate :: "int \<Rightarrow> int \<Rightarrow> int \<Rightarrow> Date" where
  "newDate year monthIndex dy = MakeDate (MakeDay year monthIndex dy) 0"

text \<open>\<^verbatim>\<open>new Date(year, monthIndex, day, hours, minutes, seconds, ms)\<close>.\<close>

definition newDateTime ::
  "int \<Rightarrow> int \<Rightarrow> int \<Rightarrow> int \<Rightarrow> int \<Rightarrow> int \<Rightarrow> int \<Rightarrow> Date" where
  "newDateTime year monthIndex dy h m s ms =
     MakeDate (MakeDay year monthIndex dy) (MakeTime h m s ms)"

definition getFullYear :: "Date \<Rightarrow> int" where
  "getFullYear t = YearFromTime t"

definition getMonth :: "Date \<Rightarrow> int" where
  "getMonth t = MonthFromTime t"

definition getDate :: "Date \<Rightarrow> int" where
  "getDate t = DateFromTime t"

definition getDay :: "Date \<Rightarrow> int" where
  "getDay t = WeekDay t"

definition getHours :: "Date \<Rightarrow> int" where
  "getHours t = HourFromTime t"

definition getMinutes :: "Date \<Rightarrow> int" where
  "getMinutes t = MinFromTime t"

definition getSeconds :: "Date \<Rightarrow> int" where
  "getSeconds t = SecFromTime t"

definition getMilliseconds :: "Date \<Rightarrow> int" where
  "getMilliseconds t = msFromTime t"

definition setDate :: "Date \<Rightarrow> int \<Rightarrow> Date" where
  "setDate t dt = MakeDate (MakeDay (YearFromTime t) (MonthFromTime t) dt) (TimeWithinDay t)"

definition setMonth :: "Date \<Rightarrow> int \<Rightarrow> Date" where
  "setMonth t m = MakeDate (MakeDay (YearFromTime t) m (DateFromTime t)) (TimeWithinDay t)"

text \<open>\<^verbatim>\<open>setFullYear(year, month, date)\<close> with all three arguments.\<close>

definition setFullYear :: "Date \<Rightarrow> int \<Rightarrow> int \<Rightarrow> int \<Rightarrow> Date" where
  "setFullYear t y m dt = MakeDate (MakeDay y m dt) (TimeWithinDay t)"

text \<open>\<^verbatim>\<open>setHours(h, min, sec, ms)\<close> with all four arguments, and \<^verbatim>\<open>setHours(h)\<close>.\<close>

definition setHours :: "Date \<Rightarrow> int \<Rightarrow> int \<Rightarrow> int \<Rightarrow> int \<Rightarrow> Date" where
  "setHours t h m s ms = MakeDate (Day t) (MakeTime h m s ms)"

definition setHours1 :: "Date \<Rightarrow> int \<Rightarrow> Date" where
  "setHours1 t h = MakeDate (Day t) (MakeTime h (MinFromTime t) (SecFromTime t) (msFromTime t))"

section \<open>The functions of date-fns the components import\<close>

text \<open>
  The library is not part of the repository; its functions are modelled after their
  implementation in date-fns 4, each mutation of a working copy written as a function
  application. On the arguments the components pass (valid dates, and intervals whose
  start is not after their end) versions 2 and 3 compute the same results.
\<close>

definition startOfDay :: "Date \<Rightarrow> Date" where
  "startOfDay date = setHours date 0 0 0 0"

definition endOfDay :: "Date \<Rightarrow> Date" where
  "endOfDay date = setHours date 23 59 59 999"

definition startOfMonth :: "Date \<Rightarrow> Date" where
  "startOfMonth date = setHours (setDate date 1) 0 0 0 0"

definition endOfMonth :: "Date \<Rightarrow> Date" where
  "endOfMonth date =
     (let m = getMonth date in
      setHours (setFullYear date (getFullYear date) (m + 1) 0) 23 59 59 999)"

definition startOfWeek :: "Date \<Rightarrow> int \<Rightarrow> Date" where
  "startOfWeek date weekStartsOn =
     (let dy = getDay date;
          diff = (if dy < weekStartsOn then 7 else 0) + dy - weekStartsOn
      in setHours (setDate date (getDate date - diff)) 0 0 0 0)"

definition addDays :: "Date \<Rightarrow> int \<Rightarrow> Date" where
  "addDays date amount = (if amount = 0 then date else setDate date (getDate date + amount))"

definition addWeeks :: "Date \<Rightarrow> int \<Rightarrow> Date" where
  "addWeeks date amount = addDays date (amount * 7)"

definition isWeekend :: "Date \<Rightarrow> bool" where
  "isWeekend date = (let dy = getDay date in dy = 0 \<or> dy = 6)"

definition compareAsc :: "Date \<Rightarrow> Date \<Rightarrow> int" where
  "compareAsc dateLeft dateRight =
     (let diff = dateLeft - dateRight in
      if diff < 0 then - 1 else if diff > 0 then 1 else diff)"

text \<open>
  \<^verbatim>\<open>compareLocalAsc\<close> (private to \<^verbatim>\<open>differenceInDays\<close>): the first non-zero difference
  of the local fields, as the chain of \<^verbatim>\<open>||\<close> picks it.
\<close>

definition compareLocalAsc :: "Date \<Rightarrow> Date \<Rightarrow> int" where
  "compareLocalAsc laterDate earlierDate =
     (let diff =
        (if getFullYear laterDate - getFullYear earlierDate \<noteq> 0
           then getFullYear laterDate - getFullYear earlierDate
         else if getMonth laterDate - getMonth earlierDate \<noteq> 0
           then getMonth laterDate - getMonth earlierDate
         else if getDate laterDate - getDate earlierDate \<noteq> 0
           then getDate laterDate - getDate earlierDate
         else if getHours laterDate - getHours earlierDate \<noteq> 0
           then getHours laterDate - getHours earlierDate
         else if getMinutes laterDate - getMinutes earlierDate \<noteq> 0
           then getMinutes laterDate - getMinutes earlierDate
         else if getSeconds laterDate - getSeconds earlierDate \<noteq> 0
           then getSeconds laterDate - getSeconds earlierDate
         else getMilliseconds laterDate - getMilliseconds earlierDate)
      in if diff < 0 then - 1 else if diff > 0 then 1 else diff)"

text \<open>
  \<^verbatim>\<open>differenceInCalendarDays\<close> divides the distance of the two local midnights by the
  length of a day and rounds; with a constant offset the quotient is exact.
\<close>

definition differenceInCalendarDays :: "Date \<Rightarrow> Date \<Rightarrow> int" where
  "differenceInCalendarDays laterDate earlierDate =
     (startOfDay laterDate - startOfDay earlierDate) div msPerDay"

definition differenceInCalendarMonths :: "Date \<Rightarrow> Date \<Rightarrow> int" where
  "differenceInCalendarMonths laterDate earlierDate =
     (let yearsDiff = getFullYear laterDate - getFullYear earlierDate;
          monthsDiff = getMonth laterDate - getMonth earlierDate
      in yearsDiff * 12 + monthsDiff)"

text \<open>\<^verbatim>\<open>differenceInDays\<close>: the number of full days between the two dates.\<close>

definition differenceInDays :: "Date \<Rightarrow> Date \<Rightarrow> int" where
  "differenceInDays laterDate earlierDate =
     (let sign = compareLocalAsc laterDate earlierDate;
          difference = \<bar>differenceInCalendarDays laterDate earlierDate\<bar>;
          shifted = setDate laterDate (getDate laterDate - sign * difference);
          isLastDayNotFull = (if compareLocalAsc shifted earlierDate = - sign then 1 else 0)
      in sign * (difference - isLastDayNotFull))"

definition isLastDayOfMonth :: "Date \<Rightarrow> bool" where
  "isLastDayOfMonth date = (endOfDay date = endOfMonth date)"

text \<open>\<^verbatim>\<open>differenceInMonths\<close>: the number of full months between the two dates.\<close>

definition differenceInMonths :: "Date \<Rightarrow> Date \<Rightarrow> int" where
  "differenceInMonths laterDate earlierDate =
     (let sign = compareAsc laterDate earlierDate;
          difference = \<bar>differenceInCalendarMonths laterDate earlierDate\<bar>
      in if difference < 1 then 0
         else
           let working =
                 (if getMonth laterDate = 1 \<and> getDate laterDate > 27
                  then setDate laterDate 30 else laterDate);
               moved = setMonth working (getMonth working - sign * difference);
               isLastMonthNotFull =
                 (if isLastDayOfMonth laterDate \<and> difference = 1
                     \<and> compareAsc laterDate earlierDate = 1
                  then False
                  else compareAsc moved earlierDate = - sign)
           in sign * (difference - (if isLastMonthNotFull then 1 else 0)))"

subsection \<open>Days and the time within a day\<close>

lemma msPerDay_pos: "0 < msPerDay"
  by (simp add: msPerDay_def)

lemma div_lower: "0 < n \<Longrightarrow> n * (a div n) \<le> a" for a n :: int
  using pos_mod_sign[of n a] mult_div_mod_eq[of n a] by linarith

lemma div_upper: "0 < n \<Longrightarrow> a < n * (a div n) + n" for a n :: int
  using pos_mod_bound[of n a] mult_div_mod_eq[of n a] by linarith

lemma Day_lower: "Day t * msPerDay \<le> t"
  using div_lower[OF msPerDay_pos, of t] by (simp add: Day_def mult.commute)

lemma Day_upper: "t < Day t * msPerDay + msPerDay"
  using div_upper[OF msPerDay_pos, of t] by (simp add: Day_def mult.commute)

lemma Day_mono: "s \<le> t \<Longrightarrow> Day s \<le> Day t"
  by (simp add: Day_def zdiv_mono1 msPerDay_pos)

lemma MakeDate_Day_TimeWithinDay: "MakeDate (Day t) (TimeWithinDay t) = t"
  by (simp add: MakeDate_def Day_def TimeWithinDay_def)

lemma Day_MakeDate: "0 \<le> tm \<Longrightarrow> tm < msPerDay \<Longrightarrow> Day (MakeDate d tm) = d"
  unfolding Day_def MakeDate_def
  by (rule int_div_pos_eq[where r = tm]) (simp_all add: algebra_simps)

lemma TimeWithinDay_MakeDate:
  "0 \<le> tm \<Longrightarrow> tm < msPerDay \<Longrightarrow> TimeWithinDay (MakeDate d tm) = tm"
  unfolding TimeWithinDay_def MakeDate_def
  by (rule int_mod_pos_eq[where q = d]) (simp_all add: algebra_simps)

lemma TimeWithinDay_range: "0 \<le> TimeWithinDay t" "TimeWithinDay t < msPerDay"
  by (simp_all add: TimeWithinDay_def msPerDay_def)

lemma Day_add_days: "Day (t + k * msPerDay) = Day t + k"
  using msPerDay_pos by (simp add: Day_def)

lemma MonthFromTime_range: "0 \<le> MonthFromTime t" "MonthFromTime t \<le> 11"
  by (simp_all add: MonthFromTime_def Let_def)

lemma DateFromTime_eq:
  "DateFromTime t = DayWithinYear t - MonthStartDay (MonthFromTime t) (InLeapYear t) + 1"
  by (simp add: DateFromTime_def MonthStartDay_def Let_def)

text \<open>Reading the fields of a date and making a day of them gives its day back.\<close>

lemma MakeDay_of_time:
  "MakeDay (YearFromTime t) (MonthFromTime t) (DateFromTime t + k) = Day t + k"
proof -
  have m: "MonthFromTime t div 12 = 0" "MonthFromTime t mod 12 = MonthFromTime t"
    using MonthFromTime_range[of t] by simp_all
  show ?thesis
    by (simp add: MakeDay_def m DateFromTime_eq DayWithinYear_def InLeapYear_def)
qed

text \<open>\<^verbatim>\<open>d.setDate(d.getDate() + k)\<close> moves a date by \<open>k\<close> days.\<close>

lemma setDate_getDate: "setDate t (getDate t + k) = t + k * msPerDay"
proof -
  have "setDate t (getDate t + k) = MakeDate (Day t + k) (TimeWithinDay t)"
    by (simp add: setDate_def getDate_def MakeDay_of_time)
  also have "\<dots> = MakeDate (Day t) (TimeWithinDay t) + k * msPerDay"
    by (simp add: MakeDate_def algebra_simps)
  finally show ?thesis by (simp add: MakeDate_Day_TimeWithinDay)
qed

lemma setHours_midnight: "setHours t 0 0 0 0 = MakeDate (Day t) 0"
  by (simp add: setHours_def MakeTime_def)

lemma next_day_midnight:
  "setHours (setDate date (getDate date + 1)) 0 0 0 0 = MakeDate (Day date + 1) 0"
  using Day_add_days[of date 1] by (simp add: setDate_getDate setHours_midnight)

lemma next_day_after: "date < setHours (setDate date (getDate date + 1)) 0 0 0 0"
proof -
  have "setHours (setDate date (getDate date + 1)) 0 0 0 0 = Day date * msPerDay + msPerDay"
    unfolding next_day_midnight MakeDate_def by (simp add: algebra_simps)
  then show ?thesis using Day_upper[of date] by simp
qed

subsection \<open>The loops of date-fns\<close>

text \<open>
  \<^verbatim>\<open>eachDayOfInterval({start, end})\<close> with the default step 1: the loop pushes a copy
  of the working date and moves it to the next local midnight while it is not after
  the end.
\<close>

function eachDay_loop :: "Date \<Rightarrow> int \<Rightarrow> Date list" where
  "eachDay_loop date endTime =
     (if date \<le> endTime
      then date # eachDay_loop (setHours (setDate date (getDate date + 1)) 0 0 0 0) endTime
      else [])"
  by pat_completeness auto
termination
proof (relation "measure (\<lambda>(date, endTime). nat (endTime + 1 - date))", goal_cases)
  case 1
  show ?case by simp
next
  case (2 date endTime)
  then show ?case using next_day_after[of date] by simp
qed

declare eachDay_loop.simps [simp del]

definition eachDayOfInterval :: "Date \<Rightarrow> Date \<Rightarrow> Date list" where
  "eachDayOfInterval start end' =
     (let reversed = start > end';
          endTime = (if reversed then start else end');
          date = setHours (if reversed then end' else start) 0 0 0 0;
          dates = eachDay_loop date endTime
      in if reversed then rev dates else dates)"

text \<open>
  \<^verbatim>\<open>eachWeekOfInterval({start, end}, {weekStartsOn})\<close> with the default step 1. The
  working date is kept at 15:00 between the steps and set back to 0:00 before it is
  pushed, as the library does.
\<close>

lemma minute_fields_range:
  "0 \<le> MakeTime 0 (MinFromTime t) (SecFromTime t) (msFromTime t)"
  "MakeTime 0 (MinFromTime t) (SecFromTime t) (msFromTime t) < 3600000"
proof -
  have "0 \<le> MinFromTime t" "MinFromTime t \<le> 59" "0 \<le> SecFromTime t" "SecFromTime t \<le> 59"
       "0 \<le> msFromTime t" "msFromTime t \<le> 999"
    by (simp_all add: MinFromTime_def SecFromTime_def msFromTime_def)
  then show "0 \<le> MakeTime 0 (MinFromTime t) (SecFromTime t) (msFromTime t)"
    "MakeTime 0 (MinFromTime t) (SecFromTime t) (msFromTime t) < 3600000"
    by (simp_all add: MakeTime_def)
qed

lemma MakeTime_hour: "MakeTime h m s ms = h * 3600000 + MakeTime 0 m s ms"
  by (simp add: MakeTime_def)

lemma setHours1_lower: "0 \<le> h \<Longrightarrow> Day t * msPerDay \<le> setHours1 t h"
  using minute_fields_range(1)[of t]
  by (simp add: setHours1_def MakeDate_def MakeTime_hour[of h])

lemma setHours1_upper: "h \<le> 23 \<Longrightarrow> setHours1 t h < Day t * msPerDay + msPerDay"
  using minute_fields_range(2)[of t]
  by (simp add: setHours1_def MakeDate_def MakeTime_hour[of h] msPerDay_def)

lemma addWeeks_1: "addWeeks t 1 = t + 7 * msPerDay"
  by (simp add: addWeeks_def addDays_def setDate_getDate)

lemma next_week_after: "currentDate < setHours1 (addWeeks (setHours1 currentDate 0) 1) 15"
proof -
  let ?c = "setHours1 currentDate 0"
  have "Day currentDate * msPerDay \<le> ?c" by (rule setHours1_lower) simp
  then have "Day currentDate + 7 \<le> Day (?c + 7 * msPerDay)"
    using Day_mono[of "Day currentDate * msPerDay" ?c] Day_MakeDate[of 0 "Day currentDate"]
      msPerDay_pos
    by (simp add: Day_add_days MakeDate_def)
  then have "(Day currentDate + 7) * msPerDay \<le> Day (addWeeks ?c 1) * msPerDay"
    using msPerDay_pos by (simp add: addWeeks_1)
  also have "\<dots> \<le> setHours1 (addWeeks ?c 1) 15" by (rule setHours1_lower) simp
  finally show ?thesis using Day_upper[of currentDate] msPerDay_pos by (simp add: algebra_simps)
qed

function eachWeek_loop :: "Date \<Rightarrow> int \<Rightarrow> Date list" where
  "eachWeek_loop currentDate endTime =
     (if currentDate \<le> endTime
      then setHours1 currentDate 0
           # eachWeek_loop (setHours1 (addWeeks (setHours1 currentDate 0) 1) 15) endTime
      else [])"
  by pat_completeness auto
termination
proof (relation "measure (\<lambda>(currentDate, endTime). nat (endTime + 1 - currentDate))", goal_cases)
  case 1
  show ?case by simp
next
  case (2 currentDate endTime)
  then show ?case using next_week_after[of currentDate] by simp
qed

declare eachWeek_loop.simps [simp del]

definition eachWeekOfInterval :: "Date \<Rightarrow> Date \<Rightarrow> int \<Rightarrow> Date list" where
  "eachWeekOfInterval start end' weekStartsOn =
     (let reversed = start > end';
          startDateWeek = setHours1
            (if reversed then startOfWeek end' weekStartsOn
             else startOfWeek start weekStartsOn) 15;
          endDateWeek = setHours1
            (if reversed then startOfWeek start weekStartsOn
             else startOfWeek end' weekStartsOn) 15;
          endTime = endDateWeek;
          dates = eachWeek_loop startDateWeek endTime
      in if reversed then rev dates else dates)"

section \<open>The segmentation of a date range\<close>

text \<open>\<^verbatim>\<open>IntervalType = 'day' | 'week' | 'weekend' | 'month'\<close> and the string it is.\<close>

datatype IntervalType = day | week | weekend | month

definition intervalName :: "IntervalType \<Rightarrow> string" where
  "intervalName interval =
     (case interval of
        day \<Rightarrow> ''day'' | week \<Rightarrow> ''week'' | weekend \<Rightarrow> ''weekend'' | month \<Rightarrow> ''month'')"

text \<open>\<^verbatim>\<open>DateSegment = { start: Date; end: Date }\<close>.\<close>

record DateSegment =
  seg_start :: Date
  seg_end :: Date

subsection \<open>The form: \<^verbatim>\<open>calculateDateSegments\<close> of invoice-form.tsx\<close>

text \<open>
  The loop of the \<^verbatim>\<open>'month'\<close> case: \<open>i\<close> counts up to \<open>segmentCount\<close>, and
  \<open>currentMonth\<close> moves to the next month by \<^verbatim>\<open>setMonth(getMonth() + 1)\<close>.
\<close>

function calculateDateSegments_months ::
  "int \<Rightarrow> int \<Rightarrow> Date \<Rightarrow> Date \<Rightarrow> Date \<Rightarrow> DateSegment list" where
  "calculateDateSegments_months i segmentCount start end' currentMonth =
     (if i < segmentCount
      then \<lparr>seg_start = (if i = 0 then start else startOfMonth currentMonth),
            seg_end = (if i = segmentCount - 1 then end' else endOfMonth currentMonth)\<rparr>
           # calculateDateSegments_months (i + 1) segmentCount start end'
               (setMonth currentMonth (getMonth currentMonth + 1))
      else [])"
  by pat_completeness auto
termination
  by (relation "measure (\<lambda>(i, segmentCount, start, end', currentMonth). nat (segmentCount - i))")
     auto

declare calculateDateSegments_months.simps [simp del]

text \<open>
  The function returns the object \<^verbatim>\<open>{ segments, segmentCount }\<close>, here a pair;
  \<^verbatim>\<open>segments: null\<close> is \<open>None\<close>. The date-fns calls of the \<^verbatim>\<open>try\<close> block do not
  throw on valid dates, so the \<^verbatim>\<open>catch\<close> branch has no counterpart.
\<close>

definition calculateDateSegments ::
  "Date \<Rightarrow> Date \<Rightarrow> IntervalType \<Rightarrow> DateSegment list option \<times> int" where
  "calculateDateSegments start end' interval =
     (if end' < start then (None, 0)
      else case interval of
        day \<Rightarrow>
          (Some (map (\<lambda>date. \<lparr>seg_start = date, seg_end = date\<rparr>)
                   (eachDayOfInterval start end')),
           differenceInDays end' start + 1)
      | week \<Rightarrow>
          (let segs = map (\<lambda>weekStart.
                 let weekEnd = setDate weekStart (getDate weekStart + 4);
                     adjustedEnd = (if weekEnd > end' then end' else weekEnd)
                 in \<lparr>seg_start = weekStart, seg_end = adjustedEnd\<rparr>)
               (eachWeekOfInterval start end' 1)
           in (Some segs, int (length segs)))
      | weekend \<Rightarrow>
          (let allDays = eachDayOfInterval start end';
               segs = map (\<lambda>date. \<lparr>seg_start = date, seg_end = date\<rparr>)
                        (filter isWeekend allDays)
           in (Some segs, int (length segs)))
      | month \<Rightarrow>
          (let n = differenceInMonths end' start + 1 in
           if n \<le> 0 then (Some [\<lparr>seg_start = start, seg_end = end'\<rparr>], 1)
           else (Some (calculateDateSegments_months 0 n start end' (startOfMonth start)), n)))"

subsection \<open>The picker: \<^verbatim>\<open>calculateSegments\<close> of interval-date-range-picker.tsx\<close>

text \<open>
  The state of the component (its \<^verbatim>\<open>useState\<close> cells) and the arguments it passes to
  the callback \<^verbatim>\<open>onDatesChange(startDate, endDate, segmentCount, segments)\<close>.
\<close>

record PickerState =
  intervalType :: IntervalType
  startDate :: "Date option"
  endDate :: "Date option"
  segmentCount :: int
  segments :: "DateSegment list option"
  error :: "string option"

text \<open>The initial values of the state cells; \<^verbatim>\<open>initialIntervalType\<close> defaults to \<^verbatim>\<open>'day'\<close>.\<close>

definition initialPickerState :: PickerState where
  "initialPickerState =
     \<lparr>intervalType = day, startDate = None, endDate = None,
      segmentCount = 0, segments = None, error = None\<rparr>"

type_synonym DatesChange = "Date option \<times> Date option \<times> int \<times> DateSegment list option"

function calculateSegments_months ::
  "int \<Rightarrow> int \<Rightarrow> Date \<Rightarrow> Date \<Rightarrow> Date \<Rightarrow> DateSegment list" where
  "calculateSegments_months i count start end' currentMonth =
     (if i < count
      then (let monthStart = (if i = 0 then start else startOfMonth currentMonth);
                monthEnd = (if i = count - 1 then end' else endOfMonth currentMonth)
            in \<lparr>seg_start = monthStart, seg_end = monthEnd\<rparr>)
           # calculateSegments_months (i + 1) count start end'
               (setMonth currentMonth (getMonth currentMonth + 1))
      else [])"
  by pat_completeness auto
termination
  by (relation "measure (\<lambda>(i, count, start, end', currentMonth). nat (count - i))") auto

declare calculateSegments_months.simps [simp del]

text \<open>
  \<^verbatim>\<open>calculateSegments\<close> writes the state cells and calls the callback; the model
  returns the new state and the callback's arguments. As in the form, the \<^verbatim>\<open>catch\<close>
  branch has no counterpart: no call of the \<^verbatim>\<open>try\<close> block throws on valid dates.
\<close>

definition calculateSegments ::
  "Date \<Rightarrow> Date \<Rightarrow> IntervalType \<Rightarrow> PickerState \<Rightarrow> PickerState \<times> DatesChange" where
  "calculateSegments start end' interval st =
     (let st1 = st\<lparr>error := None\<rparr> in
      if end' < start then
        (st1\<lparr>error := Some ''End date cannot be before start date'',
             segmentCount := 0, segments := None\<rparr>,
         (Some start, Some end', 0, None))
      else
        let (calculatedSegments, count) =
          (case interval of
             day \<Rightarrow>
               (map (\<lambda>date. \<lparr>seg_start = date, seg_end = date\<rparr>)
                  (eachDayOfInterval start end'),
                differenceInDays end' start + 1)
           | week \<Rightarrow>
               (let segs = map (\<lambda>weekStart.
                      let weekEnd = setDate weekStart (getDate weekStart + 4);
                          adjustedEnd = (if weekEnd > end' then end' else weekEnd)
                      in \<lparr>seg_start = weekStart, seg_end = adjustedEnd\<rparr>)
                    (eachWeekOfInterval start end' 1)
                in (segs, int (length segs)))
           | weekend \<Rightarrow>
               (let allDays = eachDayOfInterval start end';
                    segs = map (\<lambda>date. \<lparr>seg_start = date, seg_end = date\<rparr>)
                             (filter isWeekend allDays)
                in (segs, int (length segs)))
           | month \<Rightarrow>
               (let n = differenceInMonths end' start + 1 in
                if n \<le> 0 then ([\<lparr>seg_start = start, seg_end = end'\<rparr>], 1)
                else (calculateSegments_months 0 n start end' (startOfMonth start), n)));
          st2 = (if count = 0
                 then st1\<lparr>error := Some (''No valid '' @ intervalName interval
                                  @ '' segments found in the selected range'')\<rparr>
                 else st1)
        in (st2\<lparr>segmentCount := count, segments := Some calculatedSegments\<rparr>,
            (Some start, Some end', count, Some calculatedSegments)))"

subsection \<open>The picker: the preview of the items\<close>

text \<open>The decimal digits of an integer, as a template literal prints it.\<close>

fun digits :: "nat \<Rightarrow> string" where
  "digits n =
     (if n < 10 then [''0123456789'' ! n]
      else digits (n div 10) @ [''0123456789'' ! (n mod 10)])"

declare digits.simps [simp del]

definition toString :: "int \<Rightarrow> string" where
  "toString n = (if n < 0 then ''-'' @ digits (nat (- n)) else digits (nat n))"

definition monthNames :: "string list" where
  "monthNames = [''Jan'', ''Feb'', ''Mar'', ''Apr'', ''May'', ''Jun'',
                 ''Jul'', ''Aug'', ''Sep'', ''Oct'', ''Nov'', ''Dec'']"

text \<open>
  \<^verbatim>\<open>formatPreviewItem(segment, index)\<close> reads the state cells \<^verbatim>\<open>segmentCount\<close> and
  \<^verbatim>\<open>intervalType\<close>. \<^verbatim>\<open>getMonth()\<close> is always an index of \<^verbatim>\<open>monthNames\<close>
  (lemma \<open>MonthFromTime_range\<close>).
\<close>

definition formatPreviewItem :: "PickerState \<Rightarrow> DateSegment \<Rightarrow> nat \<Rightarrow> string" where
  "formatPreviewItem st segment index =
     (if index \<ge> 3 \<and> segmentCount st > 4 then
        ''+ '' @ toString (segmentCount st - 3) @ '' more '' @ intervalName (intervalType st)
          @ ''(s)...''
      else if index \<ge> 3 then []
      else
        (case intervalType st of
           day \<Rightarrow>
             ''Daily rate - '' @ monthNames ! nat (getMonth (seg_start segment)) @ '' ''
               @ toString (getDate (seg_start segment))
         | week \<Rightarrow>
             ''Weekly rate - '' @ monthNames ! nat (getMonth (seg_start segment)) @ '' ''
               @ toString (getDate (seg_start segment)) @ ''-''
               @ (if getMonth (seg_end segment) \<noteq> getMonth (seg_start segment)
                  then monthNames ! nat (getMonth (seg_end segment)) @ '' '' else [])
               @ toString (getDate (seg_end segment))
         | weekend \<Rightarrow>
             (let dayName = (if getDay (seg_start segment) = 0 then ''Sun'' else ''Sat'') in
              ''Weekend - '' @ dayName @ '', ''
                @ monthNames ! nat (getMonth (seg_start segment)) @ '' ''
                @ toString (getDate (seg_start segment)))
         | month \<Rightarrow>
             (if getMonth (seg_start segment) = getMonth (seg_end segment)
              then ''Monthly rate - '' @ monthNames ! nat (getMonth (seg_start segment))
                     @ '' '' @ toString (getFullYear (seg_start segment))
              else ''Monthly rate - '' @ monthNames ! nat (getMonth (seg_start segment))
                     @ ''-'' @ monthNames ! nat (getMonth (seg_end segment)))))"

text \<open>
  The list items the component renders under "Preview of items that will be created":
  shown when \<^verbatim>\<open>segmentCount > 0 && !error\<close> and \<^verbatim>\<open>segments && segments.length > 0\<close>;
  \<^verbatim>\<open>segments.map\<close> calls \<^verbatim>\<open>formatPreviewItem\<close> with every segment and its index and
  renders an item for every non-empty text.
\<close>

definition previewItems :: "PickerState \<Rightarrow> string list" where
  "previewItems st =
     (if segmentCount st > 0 \<and> error st = None then
        (case segments st of
           None \<Rightarrow> []
         | Some segs \<Rightarrow>
             if length segs > 0
             then filter (\<lambda>previewText. previewText \<noteq> [])
                    (map (\<lambda>(segment, index). formatPreviewItem st segment index)
                       (zip segs [0..<length segs]))
             else [])
      else [])"

subsection \<open>Notions for the properties of the segments\<close>

text \<open>
  What the \<^verbatim>\<open>'month'\<close> case computes for a valid range: with \<open>n\<close> the number of full
  months between start and end plus one, and \<open>m0\<close> the month of the start, the segment
  \<open>j\<close> (from 0 to \<open>n - 1\<close>) starts at the start (for \<open>j = 0\<close>) or at the first day of
  the month \<open>m0 + j\<close>, and ends at the end (for \<open>j = n - 1\<close>) or at the last
  millisecond of the month \<open>m0 + j\<close>.
\<close>

definition monthSegments :: "Date \<Rightarrow> Date \<Rightarrow> DateSegment list" where
  "monthSegments start end' =
     (let n = differenceInMonths end' start + 1; m0 = monthNumber start in
      map (\<lambda>j. \<lparr>seg_start = (if j = 0 then start else MakeDate (firstOfMonth (m0 + j)) 0),
                  seg_end = (if j = n - 1 then end'
                             else MakeDate (firstOfMonth (m0 + j + 1) - 1) 86399999)\<rparr>)
        [0..n - 1])"

text \<open>
  \<open>orderedWithin lo e segs\<close>: every segment of the list starts no later than it ends,
  ends no later than \<open>e\<close> and starts on the day \<open>lo\<close> or later; and each segment ends on
  an earlier calendar day than every later segment of the list starts.
\<close>

definition orderedWithin :: "int \<Rightarrow> Date \<Rightarrow> DateSegment list \<Rightarrow> bool" where
  "orderedWithin lo e segs \<longleftrightarrow>
     (\<forall>seg \<in> set segs. seg_start seg \<le> seg_end seg \<and> seg_end seg \<le> e
        \<and> lo \<le> Day (seg_start seg))
     \<and> sorted_wrt (\<lambda>a b. Day (seg_end a) < Day (seg_start b)) segs"

section \<open>Properties of the calendar\<close>

subsection \<open>Years\<close>

lemma DayFromYear_lin1:
  fixes a b c y :: int
  assumes "y - 1969 < 4 * a + 4" "100 * b \<le> y - 1901" "y - 1601 < 400 * c + 400"
  shows "146097 * (y - 1970) - 506 \<le> 400 * (365 * (y - 1970) + a - b + c)"
  using assms by (simp add: algebra_simps)

lemma DayFromYear_lin2:
  fixes a b c y :: int
  assumes "4 * a \<le> y - 1969" "y - 1901 < 100 * b + 100" "400 * c \<le> y - 1601"
  shows "400 * (365 * (y - 1970) + a - b + c) \<le> 146097 * (y - 1970) + 589"
  using assms by (simp add: algebra_simps)

lemma DayFromYear_lower: "146097 * (y - 1970) - 506 \<le> 400 * DayFromYear y"
  unfolding DayFromYear_def
  by (rule DayFromYear_lin1; rule div_lower div_upper; simp)

lemma DayFromYear_upper: "400 * DayFromYear y \<le> 146097 * (y - 1970) + 589"
  unfolding DayFromYear_def
  by (rule DayFromYear_lin2; rule div_lower div_upper; simp)

lemma div_succ_int:
  fixes a n :: int
  assumes n: "0 < n"
  shows "(a + 1) div n = a div n + (if (a + 1) mod n = 0 then 1 else 0)"
proof -
  define q r where "q = a div n" and "r = a mod n"
  have a: "a = n * q + r" and r: "0 \<le> r" "r < n"
    using n by (simp_all add: q_def r_def)
  show ?thesis
  proof (cases "r = n - 1")
    case True
    have e: "a + 1 = n * (q + 1) + 0" using a True by (simp add: algebra_simps)
    have "(a + 1) div n = q + 1" by (rule int_div_pos_eq[OF e]) (use n in simp_all)
    moreover have "(a + 1) mod n = 0" by (rule int_mod_pos_eq[OF e]) (use n in simp_all)
    ultimately show ?thesis by (simp add: q_def)
  next
    case False
    have e: "a + 1 = n * q + (r + 1)" using a by simp
    have b: "0 \<le> r + 1" "r + 1 < n" using r False by linarith+
    have "(a + 1) div n = q" by (rule int_div_pos_eq[OF e b])
    moreover have "(a + 1) mod n = r + 1" by (rule int_mod_pos_eq[OF e b])
    ultimately show ?thesis using r by (simp add: q_def)
  qed
qed

text \<open>The first day of the next year is \<open>DaysInYear\<close> days later.\<close>

lemma DayFromYear_step: "DayFromYear (y + 1) = DayFromYear y + DaysInYear y"
proof -
  have 4: "(y + 1 - 1969) div 4 = (y - 1969) div 4 + (if y mod 4 = 0 then 1 else 0)"
    using div_succ_int[of 4 "y - 1969"] mod_diff_eq[of y 4 1968] by (simp add: algebra_simps)
  have 100: "(y + 1 - 1901) div 100 = (y - 1901) div 100 + (if y mod 100 = 0 then 1 else 0)"
    using div_succ_int[of 100 "y - 1901"] mod_diff_eq[of y 100 1900] by (simp add: algebra_simps)
  have 400: "(y + 1 - 1601) div 400 = (y - 1601) div 400 + (if y mod 400 = 0 then 1 else 0)"
    using div_succ_int[of 400 "y - 1601"] mod_diff_eq[of y 400 1600] by (simp add: algebra_simps)
  have a: "y mod 4 = 0" if "y mod 100 = 0"
  proof -
    from that obtain k where "y = 100 * k" by (auto simp: mod_eq_0_iff_dvd)
    then have "y = 4 * (25 * k)" by simp
    then show ?thesis by (simp only: mod_mult_self1_is_0)
  qed
  have b: "y mod 100 = 0" if "y mod 400 = 0"
  proof -
    from that obtain k where "y = 400 * k" by (auto simp: mod_eq_0_iff_dvd)
    then have "y = 100 * (4 * k)" by simp
    then show ?thesis by (simp only: mod_mult_self1_is_0)
  qed
  show ?thesis
    unfolding DayFromYear_def DaysInYear_def 4 100 400 using a b
    by (auto simp: algebra_simps)
qed

lemma DaysInYear_cases: "DaysInYear y = 365 \<or> DaysInYear y = 366"
  by (simp add: DaysInYear_def)

lemma DayFromYear_less_step: "DayFromYear y < DayFromYear (y + 1)"
  using DaysInYear_cases[of y] by (auto simp: DayFromYear_step)

lemma DayFromYear_mono: "y \<le> z \<Longrightarrow> DayFromYear y \<le> DayFromYear z"
proof (induction z rule: int_ge_induct)
  case base
  show ?case by simp
next
  case (step i)
  then show ?case using DayFromYear_less_step[of i] by simp
qed

lemma DayFromYear_strict_mono: "y < z \<Longrightarrow> DayFromYear y < DayFromYear z"
  using DayFromYear_mono[of "y + 1" z] DayFromYear_less_step[of y] by simp

lemma YearFromTime_lower: "DayFromYear (YearFromTime t) \<le> Day t"
proof -
  define q where "q = (400 * Day t) div 146097"
  have q: "146097 * q \<le> 400 * Day t"
    unfolding q_def by (rule div_lower) simp
  have "DayFromYear (1970 + q - 1) \<le> Day t"
    using DayFromYear_upper[of "1970 + q - 1"] q by (simp add: algebra_simps)
  then show ?thesis
    unfolding YearFromTime_def q_def[symmetric] Let_def by simp
qed

lemma YearFromTime_upper: "Day t < DayFromYear (YearFromTime t + 1)"
proof -
  define q where "q = (400 * Day t) div 146097"
  have q: "400 * Day t < 146097 * q + 146097"
    unfolding q_def by (rule div_upper) simp
  have "Day t < DayFromYear (1970 + q + 1 + 1)"
    using DayFromYear_lower[of "1970 + q + 1 + 1"] q by (simp add: algebra_simps)
  then show ?thesis
    unfolding YearFromTime_def q_def[symmetric] Let_def by (auto simp: algebra_simps)
qed

text \<open>
  The executable \<open>YearFromTime\<close> is the year of the ECMAScript specification: the
  largest year whose first day is not after the day of \<open>t\<close>.
\<close>

lemma YearFromTime_largest:
  "DayFromYear (YearFromTime t) \<le> Day t
   \<and> (\<forall>y. DayFromYear y \<le> Day t \<longrightarrow> y \<le> YearFromTime t)"
proof (intro conjI allI impI)
  show "DayFromYear (YearFromTime t) \<le> Day t" by (rule YearFromTime_lower)
next
  fix y assume "DayFromYear y \<le> Day t"
  then have "DayFromYear y < DayFromYear (YearFromTime t + 1)"
    using YearFromTime_upper[of t] by simp
  then have "\<not> YearFromTime t + 1 \<le> y"
    using DayFromYear_mono[of "YearFromTime t + 1" y] by auto
  then show "y \<le> YearFromTime t" by simp
qed

lemma YearFromTime_unique:
  assumes "DayFromYear y \<le> Day t" "Day t < DayFromYear (y + 1)"
  shows "YearFromTime t = y"
proof (rule antisym)
  show "y \<le> YearFromTime t" using YearFromTime_largest assms(1) by blast
  have "DayFromYear (YearFromTime t) < DayFromYear (y + 1)"
    using YearFromTime_lower[of t] assms(2) by simp
  then have "\<not> y + 1 \<le> YearFromTime t"
    using DayFromYear_mono[of "y + 1" "YearFromTime t"] by auto
  then show "YearFromTime t \<le> y" by simp
qed

lemma YearFromTime_mono: "Day s \<le> Day t \<Longrightarrow> YearFromTime s \<le> YearFromTime t"
  using YearFromTime_largest[of t] YearFromTime_lower[of s] by (meson order_trans)

lemma DayWithinYear_range:
  "0 \<le> DayWithinYear t" "DayWithinYear t < DaysInYear (YearFromTime t)"
  using YearFromTime_lower[of t] YearFromTime_upper[of t]
  by (simp_all add: DayWithinYear_def DayFromYear_step)

subsection \<open>Months and dates\<close>

lemma InLeapYear_cases: "InLeapYear t = 0 \<or> InLeapYear t = 1"
  by (simp add: InLeapYear_def)

lemma MonthFromTime_mono_in_year:
  assumes "YearFromTime s = YearFromTime t" "Day s \<le> Day t"
  shows "MonthFromTime s \<le> MonthFromTime t"
proof -
  have l: "InLeapYear s = InLeapYear t" using assms(1) by (simp add: InLeapYear_def)
  have d: "DayWithinYear s \<le> DayWithinYear t" using assms by (simp add: DayWithinYear_def)
  show ?thesis
    using d InLeapYear_cases[of t] unfolding MonthFromTime_def Let_def l
    by (auto split: if_splits)
qed

lemma DateFromTime_diff_in_month:
  assumes "YearFromTime s = YearFromTime t" "MonthFromTime s = MonthFromTime t"
  shows "DateFromTime t - DateFromTime s = Day t - Day s"
proof -
  have l: "InLeapYear s = InLeapYear t" using assms(1) by (simp add: InLeapYear_def)
  show ?thesis
    by (simp add: DateFromTime_eq l assms DayWithinYear_def)
qed

subsection \<open>The fields of the time within a day\<close>

lemma TimeWithinDay_fields:
  "TimeWithinDay t = MakeTime (HourFromTime t) (MinFromTime t) (SecFromTime t) (msFromTime t)"
proof -
  have 1: "t mod 86400000 = 3600000 * (t div 3600000 mod 24) + t mod 3600000"
    using zmod_zmult2_eq[of 24 t 3600000] by simp
  have 2: "t mod 3600000 = 60000 * (t div 60000 mod 60) + t mod 60000"
    using zmod_zmult2_eq[of 60 t 60000] by simp
  have 3: "t mod 60000 = 1000 * (t div 1000 mod 60) + t mod 1000"
    using zmod_zmult2_eq[of 60 t 1000] by simp
  show ?thesis
    unfolding TimeWithinDay_def msPerDay_def MakeTime_def HourFromTime_def MinFromTime_def
      SecFromTime_def msFromTime_def
    by (simp only: 1 2 3 algebra_simps)
qed

lemma time_fields_range:
  "0 \<le> HourFromTime t" "HourFromTime t \<le> 23"
  "0 \<le> MinFromTime t" "MinFromTime t \<le> 59"
  "0 \<le> SecFromTime t" "SecFromTime t \<le> 59"
  "0 \<le> msFromTime t" "msFromTime t \<le> 999"
  by (simp_all add: HourFromTime_def MinFromTime_def SecFromTime_def msFromTime_def)

lemma MakeTime_lex:
  assumes lt: "MakeTime h m s ms < MakeTime h' m' s' ms'"
    and r: "0 \<le> m" "m \<le> 59" "0 \<le> s" "s \<le> 59" "0 \<le> ms" "ms \<le> 999"
    and r': "0 \<le> m'" "m' \<le> 59" "0 \<le> s'" "s' \<le> 59" "0 \<le> ms'" "ms' \<le> 999"
  shows "h < h' \<or> (h = h' \<and> (m < m' \<or> (m = m' \<and> (s < s' \<or> (s = s' \<and> ms < ms')))))"
proof -
  have h: "h \<le> h'" using lt r(1,3,5) r'(2,4,6) unfolding MakeTime_def by linarith
  have m: "m \<le> m'" if "h = h'" using lt r(3,5) r'(4,6) that unfolding MakeTime_def by linarith
  have s: "s \<le> s'" if "h = h'" "m = m'" using lt r(5) r'(6) that unfolding MakeTime_def by linarith
  have ms: "ms < ms'" if "h = h'" "m = m'" "s = s'" using lt that unfolding MakeTime_def by linarith
  show ?thesis using h m s ms by (metis order_le_less)
qed

subsection \<open>Comparing dates field by field\<close>

lemma time_less_same_day:
  assumes "Day s = Day t" "s < t"
  shows "TimeWithinDay s < TimeWithinDay t"
  using assms MakeDate_Day_TimeWithinDay[of s] MakeDate_Day_TimeWithinDay[of t]
  by (simp add: MakeDate_def)

lemma compareLocalAsc_greater:
  assumes lt: "earlier < later"
  shows "compareLocalAsc later earlier = 1"
proof -
  have dle: "Day earlier \<le> Day later" using lt by (simp add: Day_mono)
  have Y: "YearFromTime earlier \<le> YearFromTime later" using dle by (rule YearFromTime_mono)
  show ?thesis
  proof (cases "YearFromTime earlier < YearFromTime later")
    case True
    then show ?thesis by (simp add: compareLocalAsc_def getFullYear_def Let_def)
  next
    case False
    then have Yeq: "YearFromTime later = YearFromTime earlier" using Y by simp
    have M: "MonthFromTime earlier \<le> MonthFromTime later"
      using MonthFromTime_mono_in_year[OF Yeq[symmetric] dle] .
    show ?thesis
    proof (cases "MonthFromTime earlier < MonthFromTime later")
      case True
      then show ?thesis
        by (simp add: compareLocalAsc_def getFullYear_def getMonth_def Let_def Yeq)
    next
      case False
      then have Meq: "MonthFromTime later = MonthFromTime earlier" using M by simp
      have D: "DateFromTime later - DateFromTime earlier = Day later - Day earlier"
        using DateFromTime_diff_in_month[OF Yeq[symmetric] Meq[symmetric]] .
      show ?thesis
      proof (cases "Day earlier < Day later")
        case True
        then show ?thesis using D
          by (simp add: compareLocalAsc_def getFullYear_def getMonth_def getDate_def Let_def
              Yeq Meq)
      next
        case False
        then have Deq: "Day earlier = Day later" using dle by simp
        then have Dt: "DateFromTime later = DateFromTime earlier" using D by simp
        have "TimeWithinDay earlier < TimeWithinDay later"
          using time_less_same_day[OF Deq lt] .
        then have "MakeTime (HourFromTime earlier) (MinFromTime earlier) (SecFromTime earlier)
              (msFromTime earlier)
            < MakeTime (HourFromTime later) (MinFromTime later) (SecFromTime later)
              (msFromTime later)"
          by (simp only: TimeWithinDay_fields)
        from MakeTime_lex[OF this time_fields_range(3-8) time_fields_range(3-8)]
        show ?thesis
          by (auto simp: compareLocalAsc_def getFullYear_def getMonth_def getDate_def
              getHours_def getMinutes_def getSeconds_def getMilliseconds_def Let_def
              Yeq Meq Dt)
      qed
    qed
  qed
qed

lemma compareLocalAsc_flip: "compareLocalAsc a b = - compareLocalAsc b a"
  by (simp add: compareLocalAsc_def Let_def)

text \<open>In this model the comparison of the local fields is the comparison of the time values.\<close>

lemma compareLocalAsc_eq: "compareLocalAsc a b = compareAsc a b"
proof -
  consider "b < a" | "a = b" | "a < b" by linarith
  then show ?thesis
  proof cases
    case 1
    then show ?thesis by (simp add: compareLocalAsc_greater compareAsc_def)
  next
    case 2
    then show ?thesis by (simp add: compareLocalAsc_def compareAsc_def)
  next
    case 3
    then show ?thesis
      using compareLocalAsc_greater[OF 3] compareLocalAsc_flip[of a b]
      by (simp add: compareAsc_def)
  qed
qed

subsection \<open>Differences in days\<close>

lemma startOfDay_eq: "startOfDay t = MakeDate (Day t) 0"
  by (simp add: startOfDay_def setHours_midnight)

lemma differenceInCalendarDays_eq: "differenceInCalendarDays a b = Day a - Day b"
proof -
  have "startOfDay a - startOfDay b = (Day a - Day b) * msPerDay"
    by (simp add: startOfDay_eq MakeDate_def algebra_simps)
  then show ?thesis using msPerDay_pos by (simp add: differenceInCalendarDays_def)
qed

text \<open>
  For a range that is not reversed, \<^verbatim>\<open>differenceInDays\<close> is the number of calendar
  days between the two dates, less one when the later date has the earlier time of day
  (the last day is not full).
\<close>

lemma differenceInDays_eq:
  assumes "earlier \<le> later"
  shows "differenceInDays later earlier
    = Day later - Day earlier
      - (if TimeWithinDay later < TimeWithinDay earlier then 1 else 0)"
proof (cases "earlier = later")
  case True
  then show ?thesis
    by (simp add: differenceInDays_def compareLocalAsc_eq compareAsc_def Let_def)
next
  case False
  then have lt: "earlier < later" using assms by simp
  have sign: "compareAsc later earlier = 1" using lt by (simp add: compareAsc_def)
  have d: "0 \<le> Day later - Day earlier" using assms by (simp add: Day_mono)
  define shifted where "shifted = later + (- (Day later - Day earlier)) * msPerDay"
  have "getDate later - (Day later - Day earlier)
      = getDate later + (- (Day later - Day earlier))"
    by simp
  then have shifted: "setDate later (getDate later - (Day later - Day earlier)) = shifted"
    by (simp only: setDate_getDate shifted_def)
  have Dsh: "Day shifted = Day earlier"
    unfolding shifted_def by (simp add: Day_add_days)
  have Tsh: "TimeWithinDay shifted = TimeWithinDay later"
    unfolding shifted_def TimeWithinDay_def by simp
  have cmp: "shifted < earlier \<longleftrightarrow> TimeWithinDay later < TimeWithinDay earlier"
  proof -
    define x where "x = Day earlier * msPerDay"
    have "shifted = x + TimeWithinDay later" "earlier = x + TimeWithinDay earlier"
      using MakeDate_Day_TimeWithinDay[of shifted] MakeDate_Day_TimeWithinDay[of earlier]
      by (simp_all add: MakeDate_def Dsh Tsh x_def)
    then show ?thesis by linarith
  qed
  have "compareAsc shifted earlier = - 1 \<longleftrightarrow> shifted < earlier"
    by (auto simp: compareAsc_def Let_def)
  then show ?thesis
    using d cmp
    by (simp add: differenceInDays_def compareLocalAsc_eq sign Let_def
        differenceInCalendarDays_eq shifted)
qed


subsection \<open>The days of an interval\<close>

lemma midnight_le_iff: "MakeDate d 0 \<le> t \<longleftrightarrow> d \<le> Day t"
proof
  assume "MakeDate d 0 \<le> t"
  then have "Day (MakeDate d 0) \<le> Day t" by (rule Day_mono)
  then show "d \<le> Day t" using msPerDay_pos by (simp add: Day_MakeDate)
next
  assume "d \<le> Day t"
  then have "d * msPerDay \<le> Day t * msPerDay" using msPerDay_pos by simp
  then show "MakeDate d 0 \<le> t" using Day_lower[of t] by (simp add: MakeDate_def)
qed

lemma eachDay_loop_midnight:
  "eachDay_loop (MakeDate d 0) endTime = map (\<lambda>k. MakeDate k 0) [d..Day endTime]"
proof (induction "MakeDate d 0" endTime arbitrary: d rule: eachDay_loop.induct)
  case (1 endTime)
  have D: "Day (MakeDate d 0) = d" using msPerDay_pos by (simp add: Day_MakeDate)
  show ?case
  proof (cases "d \<le> Day endTime")
    case True
    then have le: "MakeDate d 0 \<le> endTime" by (simp add: midnight_le_iff)
    have nxt: "setHours (setDate (MakeDate d 0) (getDate (MakeDate d 0) + 1)) 0 0 0 0
        = MakeDate (d + 1) 0"
      by (simp add: next_day_midnight D)
    have "eachDay_loop (MakeDate (d + 1) 0) endTime
        = map (\<lambda>k. MakeDate k 0) [d + 1..Day endTime]"
      using 1[OF le nxt] .
    then show ?thesis
      using le True
      by (subst eachDay_loop.simps) (simp add: nxt upto_rec1[of d])
  next
    case False
    then have "\<not> MakeDate d 0 \<le> endTime" by (simp add: midnight_le_iff)
    then show ?thesis using False by (subst eachDay_loop.simps) simp
  qed
qed

text \<open>
  For a range that is not reversed, \<^verbatim>\<open>eachDayOfInterval\<close> is the list of the local
  midnights of the calendar days from the day of the start to the day of the end.
\<close>

lemma eachDayOfInterval_eq:
  "start \<le> end' \<Longrightarrow>
     eachDayOfInterval start end' = map (\<lambda>k. MakeDate k 0) [Day start..Day end']"
  by (simp add: eachDayOfInterval_def Let_def setHours_midnight eachDay_loop_midnight)

subsection \<open>Evaluating dates\<close>


lemma TimeWithinDay_newDate: "TimeWithinDay (newDate y m d) = 0"
  using msPerDay_pos by (simp add: newDate_def TimeWithinDay_MakeDate)




subsection \<open>Weeks\<close>

lemma monday_diff:
  "(if (a + 4) mod 7 < 1 then 7 else 0) + (a + 4) mod 7 - 1 = (a + 3) mod 7" for a :: int
proof -
  have d: "(a + 3 + 1) div 7 = (a + 3) div 7 + (if (a + 3 + 1) mod 7 = 0 then 1 else 0)"
    by (rule div_succ_int) simp
  have m: "(a + 3 + 1) mod 7 = a + 3 + 1 - 7 * ((a + 3 + 1) div 7)"
    "(a + 3) mod 7 = a + 3 - 7 * ((a + 3) div 7)"
    using mult_div_mod_eq[of 7 "a + 3 + 1"] mult_div_mod_eq[of 7 "a + 3"] by linarith+
  have p: "0 \<le> (a + 3 + 1) mod 7" by simp
  have e: "a + 4 = a + 3 + 1" by simp
  show ?thesis
  proof (cases "(a + 3 + 1) mod 7 = 0")
    case True
    then show ?thesis using d m unfolding e by simp
  next
    case False
    then have "\<not> (a + 3 + 1) mod 7 < 1" using p by linarith
    then show ?thesis using d m False unfolding e by simp
  qed
qed

lemma mod7_as_div: "(a + 3) mod 7 = a + 3 - 7 * ((a + 3) div 7)" for a :: int
  using mult_div_mod_eq[of 7 "a + 3"] by linarith

text \<open>
  With weeks starting on Monday, \<^verbatim>\<open>startOfWeek\<close> is the local midnight of the Monday
  on or before the date; its day number is \<open>7 * ((d + 3) div 7) - 3\<close> for the day
  number \<open>d\<close> of the date (day 0, 1970-01-01, is a Thursday).
\<close>

lemma startOfWeek_monday: "startOfWeek t 1 = MakeDate (7 * ((Day t + 3) div 7) - 3) 0"
proof -
  have "setDate t (getDate t + (- ((Day t + 3) mod 7))) = t + (- ((Day t + 3) mod 7)) * msPerDay"
    by (rule setDate_getDate)
  then have "setDate t (getDate t - ((Day t + 3) mod 7)) = t + (- ((Day t + 3) mod 7)) * msPerDay"
    by simp
  then have "Day (setDate t (getDate t - ((Day t + 3) mod 7))) = 7 * ((Day t + 3) div 7) - 3"
    by (simp only: Day_add_days mod7_as_div)
  then show ?thesis
    by (simp add: startOfWeek_def Let_def getDay_def WeekDay_def monday_diff setHours_midnight)
qed


lemma monday_range: "7 * ((d + 3) div 7) - 3 \<le> d" "d < 7 * ((d + 3) div 7) - 3 + 7" for d :: int
  using div_lower[of 7 "d + 3"] div_upper[of 7 "d + 3"] by simp_all

lemma fields_on_the_hour:
  "MinFromTime (MakeDate d (h * 3600000)) = 0"
  "SecFromTime (MakeDate d (h * 3600000)) = 0"
  "msFromTime (MakeDate d (h * 3600000)) = 0"
proof -
  have 1: "MakeDate d (h * 3600000) = (d * 1440 + h * 60) * 60000"
    and 2: "MakeDate d (h * 3600000) = (d * 86400 + h * 3600) * 1000"
    by (simp_all add: MakeDate_def msPerDay_def)
  have 3: "d * 1440 + h * 60 = (d * 24 + h) * 60" "d * 86400 + h * 3600 = (d * 1440 + h * 60) * 60"
    by simp_all
  show "MinFromTime (MakeDate d (h * 3600000)) = 0"
    unfolding MinFromTime_def 1 by (simp add: 3)
  show "SecFromTime (MakeDate d (h * 3600000)) = 0"
    unfolding SecFromTime_def 2 by (simp add: 3)
  show "msFromTime (MakeDate d (h * 3600000)) = 0"
    unfolding msFromTime_def 2 by simp
qed

lemma setHours1_on_the_hour:
  assumes "0 \<le> h" "h \<le> 23"
  shows "setHours1 (MakeDate d (h * 3600000)) h' = MakeDate d (h' * 3600000)"
proof -
  have "Day (MakeDate d (h * 3600000)) = d"
    using assms by (intro Day_MakeDate) (simp_all add: msPerDay_def)
  then show ?thesis
    by (simp add: setHours1_def fields_on_the_hour MakeTime_def)
qed

lemma MakeDate_le_iff: "MakeDate d tm \<le> MakeDate d' tm \<longleftrightarrow> d \<le> d'"
  using msPerDay_pos by (simp add: MakeDate_def)

lemma week_count_step:
  assumes "d \<le> d1"
  shows "nat ((d1 - d) div 7 + 1) = Suc (nat ((d1 - (d + 7)) div 7 + 1))"
proof -
  have "(d1 - (d + 7)) div 7 = (d1 - d) div 7 - 1"
    using div_add_self2[of 7 "d1 - (d + 7)"] by (simp add: algebra_simps)
  moreover have "0 \<le> (d1 - d) div 7" using assms by (simp add: pos_imp_zdiv_nonneg_iff)
  ultimately show ?thesis by simp
qed

lemma eachWeek_loop_eq:
  "eachWeek_loop (MakeDate d (15 * 3600000)) (MakeDate d1 (15 * 3600000))
     = map (\<lambda>k. MakeDate (d + 7 * int k) 0) [0..<nat ((d1 - d) div 7 + 1)]"
proof (induction "MakeDate d (15 * 3600000)" "MakeDate d1 (15 * 3600000)" arbitrary: d
    rule: eachWeek_loop.induct)
  case 1
  have zero: "setHours1 (MakeDate d (15 * 3600000)) 0 = MakeDate d 0"
    using setHours1_on_the_hour[of 15 d 0] by simp
  have nxt: "setHours1 (addWeeks (MakeDate d 0) 1) 15 = MakeDate (d + 7) (15 * 3600000)"
  proof -
    have "addWeeks (MakeDate d 0) 1 = MakeDate (d + 7) (0 * 3600000)"
      by (simp add: addWeeks_1 MakeDate_def algebra_simps)
    then show ?thesis using setHours1_on_the_hour[of 0 "d + 7" 15] by simp
  qed
  show ?case
  proof (cases "d \<le> d1")
    case True
    then have le: "MakeDate d (15 * 3600000) \<le> MakeDate d1 (15 * 3600000)"
      by (simp only: MakeDate_le_iff)
    have IH: "eachWeek_loop (MakeDate (d + 7) (15 * 3600000)) (MakeDate d1 (15 * 3600000))
        = map (\<lambda>k. MakeDate (d + 7 + 7 * int k) 0) [0..<nat ((d1 - (d + 7)) div 7 + 1)]"
      using 1[OF le] by (simp only: zero nxt)
    show ?thesis
      apply (subst eachWeek_loop.simps)
      apply (simp only: le if_True zero nxt IH week_count_step[OF True] map_upt_Suc)
      apply (simp add: algebra_simps)
      done
  next
    case False
    then have nle: "\<not> MakeDate d (15 * 3600000) \<le> MakeDate d1 (15 * 3600000)"
      using MakeDate_le_iff by blast
    have "(d1 - d) div 7 < 0" using False by (simp add: div_neg_pos_less0)
    then have n: "nat ((d1 - d) div 7 + 1) = 0" by simp
    show ?thesis
      by (subst eachWeek_loop.simps) (simp only: nle if_False n, simp)
  qed
qed

lemma Day_startOfWeek: "Day (startOfWeek t 1) = 7 * ((Day t + 3) div 7) - 3"
  using msPerDay_pos by (simp add: startOfWeek_monday Day_MakeDate)

text \<open>
  For a range that is not reversed, \<^verbatim>\<open>eachWeekOfInterval\<close> with weeks starting on
  Monday is the list of the Mondays (at local midnight) from the Monday of the start's
  week to the Monday of the end's week.
\<close>

lemma eachWeekOfInterval_eq:
  assumes "start \<le> end'"
  shows "eachWeekOfInterval start end' 1
    = map (\<lambda>k. MakeDate (Day (startOfWeek start 1) + 7 * int k) 0)
        [0..<nat ((Day (startOfWeek end' 1) - Day (startOfWeek start 1)) div 7 + 1)]"
proof -
  have h: "setHours1 (startOfWeek t 1) 15 = MakeDate (Day (startOfWeek t 1)) (15 * 3600000)" for t
    using setHours1_on_the_hour[of 0 "7 * ((Day t + 3) div 7) - 3" 15]
    by (simp add: Day_startOfWeek) (simp add: startOfWeek_monday)
  have r: "(start > end') = False" using assms by simp
  show ?thesis
    by (simp only: eachWeekOfInterval_def Let_def r if_False h eachWeek_loop_eq)
qed

subsection \<open>Months as indices\<close>

lemma monthNumber_div_mod:
  "monthNumber t div 12 = YearFromTime t" "monthNumber t mod 12 = MonthFromTime t"
proof -
  have e: "monthNumber t = 12 * YearFromTime t + MonthFromTime t"
    by (simp add: monthNumber_def)
  show "monthNumber t div 12 = YearFromTime t"
    by (rule int_div_pos_eq[OF e]) (use MonthFromTime_range[of t] in simp_all)
  show "monthNumber t mod 12 = MonthFromTime t"
    by (rule int_mod_pos_eq[OF e]) (use MonthFromTime_range[of t] in simp_all)
qed

lemma MakeDay_month_index: "MakeDay y m d = firstOfMonth (12 * y + m) + d - 1"
  by (simp add: MakeDay_def firstOfMonth_def Let_def)

lemma MakeDay_of_fields:
  "MakeDay (YearFromTime t) (MonthFromTime t + j) d = firstOfMonth (monthNumber t + j) + d - 1"
  by (simp add: MakeDay_month_index monthNumber_def algebra_simps)

lemma firstOfMonth_eq:
  "firstOfMonth k = DayFromYear (k div 12)
     + MonthStartDay (k mod 12) (if DaysInYear (k div 12) = 366 then 1 else 0)"
  by (simp add: firstOfMonth_def MakeDay_def)

lemma month_cases:
  assumes "0 \<le> m" "m \<le> 11"
  shows "m = 0 \<or> m = 1 \<or> m = 2 \<or> m = 3 \<or> m = 4 \<or> m = 5 \<or> m = 6 \<or> m = 7 \<or> m = 8
      \<or> m = 9 \<or> m = 10 \<or> m = (11::int)"
proof -
  have u: "[0..11] = [0, 1, 2, 3, 4, 5, 6, 7, 8, 9, 10, 11::int]"
    by (simp add: upto_rec1)
  have "m \<in> set [0..11]" using assms by simp
  then show ?thesis unfolding u by simp
qed

lemma MonthStartDay_step:
  assumes "0 \<le> m" "m < 11" "l = 0 \<or> l = 1"
  shows "MonthStartDay m l < MonthStartDay (m + 1) l"
  using month_cases[of m] assms by (auto simp: MonthStartDay_def)

lemma firstOfMonth_step: "firstOfMonth k < firstOfMonth (k + 1)"
proof (cases "k mod 12 = 11")
  case True
  have "k + 1 = 12 * (k div 12) + 12"
    using True mult_div_mod_eq[of 12 k] by linarith
  then have e: "k + 1 = 12 * (k div 12 + 1) + 0"
    by (simp only: distrib_left mult_1_right add_0_right)
  have d: "(k + 1) div 12 = k div 12 + 1" by (rule int_div_pos_eq[OF e]) simp_all
  have m: "(k + 1) mod 12 = 0" by (rule int_mod_pos_eq[OF e]) simp_all
  show ?thesis
    using DaysInYear_cases[of "k div 12"]
    by (auto simp: firstOfMonth_eq d m True DayFromYear_step MonthStartDay_def)
next
  case False
  have r: "0 \<le> k mod 12" "k mod 12 < 11"
    using False pos_mod_bound[of 12 k] by simp_all
  have e: "k + 1 = 12 * (k div 12) + (k mod 12 + 1)" by simp
  have d: "(k + 1) div 12 = k div 12" by (rule int_div_pos_eq[OF e]) (use r in simp_all)
  have m: "(k + 1) mod 12 = k mod 12 + 1" by (rule int_mod_pos_eq[OF e]) (use r in simp_all)
  show ?thesis
    using MonthStartDay_step[OF r, of "if DaysInYear (k div 12) = 366 then 1 else 0"]
    by (simp add: firstOfMonth_eq d m)
qed

lemma firstOfMonth_mono: "k \<le> j \<Longrightarrow> firstOfMonth k \<le> firstOfMonth j"
proof (induction j rule: int_ge_induct)
  case base
  show ?case by simp
next
  case (step i)
  then show ?case using firstOfMonth_step[of i] by simp
qed

lemma firstOfMonth_strict_mono: "k < j \<Longrightarrow> firstOfMonth k < firstOfMonth j"
  using firstOfMonth_mono[of "k + 1" j] firstOfMonth_step[of k] by simp

lemma MonthFromTime_lower:
  "MonthStartDay (MonthFromTime t) (InLeapYear t) \<le> DayWithinYear t"
  using DayWithinYear_range(1)[of t]
  by (simp add: MonthFromTime_def MonthStartDay_def Let_def)

lemma MonthFromTime_upper:
  "MonthFromTime t < 11 \<Longrightarrow> DayWithinYear t < MonthStartDay (MonthFromTime t + 1) (InLeapYear t)"
  by (simp add: MonthFromTime_def MonthStartDay_def Let_def split: if_splits)

text \<open>The day of a date lies in its month.\<close>

lemma firstOfMonth_lower: "firstOfMonth (monthNumber t) \<le> Day t"
  using MonthFromTime_lower[of t]
  by (simp add: firstOfMonth_eq monthNumber_div_mod DayWithinYear_def InLeapYear_def)

lemma firstOfMonth_upper: "Day t < firstOfMonth (monthNumber t + 1)"
proof (cases "MonthFromTime t < 11")
  case True
  have e: "monthNumber t + 1 = 12 * YearFromTime t + (MonthFromTime t + 1)"
    by (simp add: monthNumber_def)
  have d: "(monthNumber t + 1) div 12 = YearFromTime t"
    by (rule int_div_pos_eq[OF e]) (use True MonthFromTime_range[of t] in simp_all)
  have m: "(monthNumber t + 1) mod 12 = MonthFromTime t + 1"
    by (rule int_mod_pos_eq[OF e]) (use True MonthFromTime_range[of t] in simp_all)
  show ?thesis
    using MonthFromTime_upper[OF True]
    by (simp add: firstOfMonth_eq d m DayWithinYear_def InLeapYear_def)
next
  case False
  then have M: "MonthFromTime t = 11" using MonthFromTime_range[of t] by simp
  have e: "monthNumber t + 1 = 12 * (YearFromTime t + 1) + 0"
    by (simp add: monthNumber_def M)
  have d: "(monthNumber t + 1) div 12 = YearFromTime t + 1"
    by (rule int_div_pos_eq[OF e]) simp_all
  have m: "(monthNumber t + 1) mod 12 = 0"
    by (rule int_mod_pos_eq[OF e]) simp_all
  show ?thesis
    using YearFromTime_upper[of t] by (simp add: firstOfMonth_eq d m MonthStartDay_def)
qed

lemma monthNumber_unique:
  assumes "firstOfMonth k \<le> Day t" "Day t < firstOfMonth (k + 1)"
  shows "monthNumber t = k"
proof (rule antisym)
  have "firstOfMonth (monthNumber t) < firstOfMonth (k + 1)"
    using firstOfMonth_lower[of t] assms(2) by simp
  then have "\<not> k + 1 \<le> monthNumber t"
    using firstOfMonth_mono[of "k + 1" "monthNumber t"] by auto
  then show "monthNumber t \<le> k" by simp
  have "firstOfMonth k < firstOfMonth (monthNumber t + 1)"
    using firstOfMonth_upper[of t] assms(1) by simp
  then have "\<not> monthNumber t + 1 \<le> k"
    using firstOfMonth_mono[of "monthNumber t + 1" k] by auto
  then show "k \<le> monthNumber t" by simp
qed

lemma monthNumber_mono: "Day s \<le> Day t \<Longrightarrow> monthNumber s \<le> monthNumber t"
proof (rule ccontr)
  assume le: "Day s \<le> Day t" and "\<not> monthNumber s \<le> monthNumber t"
  then have "monthNumber t + 1 \<le> monthNumber s" by simp
  then have "firstOfMonth (monthNumber t + 1) \<le> firstOfMonth (monthNumber s)"
    by (rule firstOfMonth_mono)
  then show False using firstOfMonth_upper[of t] firstOfMonth_lower[of s] le by simp
qed

lemma DateFromTime_in_month: "DateFromTime t = Day t - firstOfMonth (monthNumber t) + 1"
  by (simp add: DateFromTime_eq firstOfMonth_eq monthNumber_div_mod DayWithinYear_def
      InLeapYear_def)

subsection \<open>The months of a range\<close>

lemma monthNumber_first:
  assumes "0 \<le> tm" "tm < msPerDay"
  shows "monthNumber (MakeDate (firstOfMonth k) tm) = k"
  by (rule monthNumber_unique)
     (use assms firstOfMonth_step[of k] in \<open>simp_all add: Day_MakeDate\<close>)

lemma Day_setDate: "Day (setDate t d) = firstOfMonth (monthNumber t) + d - 1"
  using MakeDay_of_fields[of t 0 d] TimeWithinDay_range[of t]
  by (simp add: setDate_def Day_MakeDate)

lemma startOfMonth_eq: "startOfMonth t = MakeDate (firstOfMonth (monthNumber t)) 0"
  by (simp add: startOfMonth_def setHours_midnight Day_setDate)

lemma endOfMonth_eq: "endOfMonth t = MakeDate (firstOfMonth (monthNumber t + 1) - 1) 86399999"
proof -
  have "Day (setFullYear t (getFullYear t) (getMonth t + 1) 0)
      = firstOfMonth (monthNumber t + 1) - 1"
    using MakeDay_of_fields[of t 1 0] TimeWithinDay_range[of t]
    by (simp add: setFullYear_def getFullYear_def getMonth_def Day_MakeDate)
  then show ?thesis
    by (simp add: endOfMonth_def Let_def setHours_def MakeTime_def)
qed

lemma setMonth_next:
  "setMonth (MakeDate (firstOfMonth k) 0) (getMonth (MakeDate (firstOfMonth k) 0) + 1)
     = MakeDate (firstOfMonth (k + 1)) 0"
proof -
  let ?t = "MakeDate (firstOfMonth k) 0"
  have n: "monthNumber ?t = k" using msPerDay_pos by (simp add: monthNumber_first)
  have D: "Day ?t = firstOfMonth k" using msPerDay_pos by (simp add: Day_MakeDate)
  have T: "TimeWithinDay ?t = 0" using msPerDay_pos by (simp add: TimeWithinDay_MakeDate)
  have d: "DateFromTime ?t = 1" by (simp add: DateFromTime_in_month n D)
  show ?thesis
    using MakeDay_of_fields[of ?t 1 1]
    by (simp add: setMonth_def getMonth_def d T n)
qed

text \<open>
  The month loop, started at the first day of the month \<open>c\<close> with the counter \<open>i\<close>:
  the segment of the counter \<open>j\<close> belongs to the month \<open>c + (j - i)\<close>.
\<close>

lemma months_loop_eq:
  "calculateSegments_months i n start end' (MakeDate (firstOfMonth c) 0)
     = map (\<lambda>j. \<lparr>seg_start = (if j = 0 then start
                                   else MakeDate (firstOfMonth (c + (j - i))) 0),
                     seg_end = (if j = n - 1 then end'
                                else MakeDate (firstOfMonth (c + (j - i) + 1) - 1) 86399999)\<rparr>)
         [i..n - 1]"
proof (induction i n start end' "MakeDate (firstOfMonth c) 0" arbitrary: c
    rule: calculateSegments_months.induct)
  case (1 i n start end')
  let ?t = "MakeDate (firstOfMonth c) 0"
  have mn: "monthNumber ?t = k \<longleftrightarrow> k = c" for k
    using msPerDay_pos monthNumber_first[of 0 c] by auto
  have s: "startOfMonth ?t = ?t"
    using msPerDay_pos by (simp add: startOfMonth_eq monthNumber_first)
  have e: "endOfMonth ?t = MakeDate (firstOfMonth (c + 1) - 1) 86399999"
    using msPerDay_pos by (simp add: endOfMonth_eq monthNumber_first)
  show ?case
  proof (cases "i < n")
    case True
    have IH: "calculateSegments_months (i + 1) n start end' (MakeDate (firstOfMonth (c + 1)) 0)
      = map (\<lambda>j. \<lparr>seg_start = (if j = 0 then start
                                   else MakeDate (firstOfMonth (c + 1 + (j - (i + 1)))) 0),
                     seg_end = (if j = n - 1 then end'
                                else MakeDate (firstOfMonth (c + 1 + (j - (i + 1)) + 1) - 1)
                                       86399999)\<rparr>)
         [i + 1..n - 1]"
      using 1[OF True setMonth_next] .
    have u: "[i..n - 1] = i # [i + 1..n - 1]" using True by (simp add: upto_rec1)
    show ?thesis
      apply (subst calculateSegments_months.simps)
      apply (simp only: True if_True Let_def setMonth_next IH u list.map s e)
      apply (simp add: algebra_simps)
      done
  next
    case False
    then have u: "[i..n - 1] = []" by simp
    show ?thesis
      by (subst calculateSegments_months.simps) (simp only: False if_False u list.map)
  qed
qed

subsection \<open>Differences in months\<close>

lemma differenceInMonths_nonneg:
  "earlier \<le> later \<Longrightarrow> 0 \<le> differenceInMonths later earlier"
  by (auto simp: differenceInMonths_def Let_def compareAsc_def)

lemma differenceInCalendarMonths_eq:
  "differenceInCalendarMonths a b = monthNumber a - monthNumber b"
  by (simp add: differenceInCalendarMonths_def Let_def getFullYear_def getMonth_def
      monthNumber_def)

text \<open>
  \<^verbatim>\<open>differenceInMonths\<close> counts full months: for a range that is not reversed it is
  at most the difference of the calendar months.
\<close>

lemma differenceInMonths_le_calendar:
  assumes "earlier \<le> later"
  shows "differenceInMonths later earlier \<le> monthNumber later - monthNumber earlier"
proof -
  have "0 \<le> monthNumber later - monthNumber earlier"
    using monthNumber_mono[OF Day_mono[OF assms]] by simp
  then show ?thesis
    using assms
    by (auto simp: differenceInMonths_def Let_def compareAsc_def differenceInCalendarMonths_eq)
qed

subsection \<open>The segments of the months\<close>

lemma month_case_picker:
  assumes "start \<le> end'"
  shows "segments (fst (calculateSegments start end' month st)) = Some (monthSegments start end')"
    and "segmentCount (fst (calculateSegments start end' month st))
      = differenceInMonths end' start + 1"
proof -
  have n: "\<not> differenceInMonths end' start + 1 \<le> 0"
    using differenceInMonths_nonneg[OF assms] by simp
  have l: "calculateSegments_months 0 (differenceInMonths end' start + 1) start end'
      (startOfMonth start) = monthSegments start end'"
    unfolding startOfMonth_eq months_loop_eq monthSegments_def Let_def by simp
  show "segments (fst (calculateSegments start end' month st)) = Some (monthSegments start end')"
    using assms n by (simp add: calculateSegments_def Let_def l)
  show "segmentCount (fst (calculateSegments start end' month st))
      = differenceInMonths end' start + 1"
    using assms n by (simp add: calculateSegments_def Let_def)
qed

subsection \<open>Segments inside the range, in order\<close>

lemma orderedWithin_map:
  fixes xs :: "'a::linorder list"
  assumes "sorted_wrt (<) xs"
    and "\<And>x. x \<in> set xs \<Longrightarrow>
          seg_start (f x) \<le> seg_end (f x) \<and> seg_end (f x) \<le> e \<and> lo \<le> Day (seg_start (f x))"
    and "\<And>x y. x \<in> set xs \<Longrightarrow> y \<in> set xs \<Longrightarrow> x < y \<Longrightarrow>
          Day (seg_end (f x)) < Day (seg_start (f y))"
  shows "orderedWithin lo e (map f xs)"
  unfolding orderedWithin_def
proof
  show "\<forall>seg\<in>set (map f xs). seg_start seg \<le> seg_end seg \<and> seg_end seg \<le> e
      \<and> lo \<le> Day (seg_start seg)"
    using assms(2) by auto
  show "sorted_wrt (\<lambda>a b. Day (seg_end a) < Day (seg_start b)) (map f xs)"
    using assms(1) by (rule sorted_wrt_map_mono) (use assms(3) in blast)
qed

lemma Day_midnight: "Day (MakeDate k 0) = k"
  using msPerDay_pos by (simp add: Day_MakeDate)

lemma day_list_ordered:
  "orderedWithin (Day start) end'
     (map (\<lambda>k. \<lparr>seg_start = MakeDate k 0, seg_end = MakeDate k 0\<rparr>)
        (filter P [Day start..Day end']))"
  by (rule orderedWithin_map)
     (simp_all add: sorted_wrt_filter midnight_le_iff Day_midnight)

lemma week_list_ordered:
  assumes "ws + 7 * (int n - 1) \<le> Day end'"
  shows "orderedWithin ws end'
     (map (\<lambda>k. \<lparr>seg_start = MakeDate (ws + 7 * int k) 0,
                  seg_end = min (MakeDate (ws + 7 * int k + 4) 0) end'\<rparr>) [0..<n])"
proof (rule orderedWithin_map)
  show "sorted_wrt (<) [0..<n]" by simp
next
  fix k assume "k \<in> set [0..<n]"
  then have "ws + 7 * int k \<le> Day end'" using assms by simp
  then have "MakeDate (ws + 7 * int k) 0 \<le> end'" by (simp add: midnight_le_iff)
  moreover have "MakeDate (ws + 7 * int k) 0 \<le> MakeDate (ws + 7 * int k + 4) 0"
    using msPerDay_pos by (simp add: MakeDate_def)
  ultimately show "seg_start \<lparr>seg_start = MakeDate (ws + 7 * int k) 0,
          seg_end = min (MakeDate (ws + 7 * int k + 4) 0) end'\<rparr>
        \<le> seg_end \<lparr>seg_start = MakeDate (ws + 7 * int k) 0,
          seg_end = min (MakeDate (ws + 7 * int k + 4) 0) end'\<rparr>
      \<and> seg_end \<lparr>seg_start = MakeDate (ws + 7 * int k) 0,
          seg_end = min (MakeDate (ws + 7 * int k + 4) 0) end'\<rparr> \<le> end'
      \<and> ws \<le> Day (seg_start \<lparr>seg_start = MakeDate (ws + 7 * int k) 0,
          seg_end = min (MakeDate (ws + 7 * int k + 4) 0) end'\<rparr>)"
    by (simp add: Day_midnight)
next
  fix k j :: nat assume "k < j"
  have "Day (min (MakeDate (ws + 7 * int k + 4) 0) end') \<le> Day (MakeDate (ws + 7 * int k + 4) 0)"
    by (rule Day_mono) simp
  then show "Day (seg_end \<lparr>seg_start = MakeDate (ws + 7 * int k) 0,
          seg_end = min (MakeDate (ws + 7 * int k + 4) 0) end'\<rparr>)
      < Day (seg_start \<lparr>seg_start = MakeDate (ws + 7 * int j) 0,
          seg_end = min (MakeDate (ws + 7 * int j + 4) 0) end'\<rparr>)"
    using \<open>k < j\<close> by (simp add: Day_midnight)
qed

lemma Day_last_ms: "Day (MakeDate d 86399999) = d"
  by (simp add: Day_MakeDate msPerDay_def)

lemma last_ms_before_midnight: "MakeDate (d - 1) 86399999 < MakeDate d 0"
  by (simp add: MakeDate_def msPerDay_def)

lemma less_midnight_le_last_ms: "t < MakeDate d 0 \<Longrightarrow> t \<le> MakeDate (d - 1) 86399999"
  by (simp add: MakeDate_def msPerDay_def)

lemma less_midnight_iff: "t < MakeDate d 0 \<longleftrightarrow> Day t < d"
  using midnight_le_iff[of d t] by auto

lemma month_list_ordered:
  assumes le: "start \<le> end'"
  shows "orderedWithin (Day start) end' (monthSegments start end')"
proof -
  define n where "n = differenceInMonths end' start + 1"
  define m0 where "m0 = monthNumber start"
  define f where "f = (\<lambda>j. \<lparr>seg_start = (if j = 0 then start
                                          else MakeDate (firstOfMonth (m0 + j)) 0),
      seg_end = (if j = n - 1 then end' else MakeDate (firstOfMonth (m0 + j + 1) - 1) 86399999)\<rparr>)"
  have ms: "monthSegments start end' = map f [0..n - 1]"
    by (simp add: monthSegments_def n_def m0_def f_def Let_def)
  have n: "m0 + (n - 1) \<le> monthNumber end'"
    using differenceInMonths_le_calendar[OF le] by (simp add: n_def m0_def)
  have F2: "MakeDate (firstOfMonth k) 0 \<le> end'" if "k \<le> monthNumber end'" for k
    using firstOfMonth_mono[OF that] firstOfMonth_lower[of end'] by (simp add: midnight_le_iff)
  have F4: "Day start < firstOfMonth k" if "m0 + 1 \<le> k" for k
    using firstOfMonth_mono[OF that] firstOfMonth_upper[of start] by (simp add: m0_def)
  have F6: "firstOfMonth k \<le> firstOfMonth j - 1" if "k < j" for k j
    using firstOfMonth_strict_mono[OF that] by simp
  show ?thesis unfolding ms
  proof (rule orderedWithin_map)
    show "sorted_wrt (<) [0..n - 1]" by simp
  next
    fix j assume "j \<in> set [0..n - 1]"
    then have j: "0 \<le> j" "j \<le> n - 1" by simp_all
    have a: "seg_start (f j) \<le> seg_end (f j)"
    proof -
      consider "j = 0" "j = n - 1" | "j = 0" "j \<noteq> n - 1" | "j \<noteq> 0" "j = n - 1"
        | "j \<noteq> 0" "j \<noteq> n - 1" by blast
      then show ?thesis
      proof cases
        case 1
        then show ?thesis using le by (simp add: f_def)
      next
        case 2
        have "start < MakeDate (firstOfMonth (m0 + 1)) 0"
          using F4[of "m0 + 1"] by (simp add: less_midnight_iff)
        then show ?thesis using 2 less_midnight_le_last_ms by (simp add: f_def)
      next
        case 3
        then show ?thesis using F2[of "m0 + j"] n by (simp add: f_def)
      next
        case 4
        have "MakeDate (firstOfMonth (m0 + j)) 0 < MakeDate (firstOfMonth (m0 + j + 1)) 0"
          using firstOfMonth_step[of "m0 + j"] msPerDay_pos by (simp add: MakeDate_def)
        then show ?thesis using 4 less_midnight_le_last_ms by (simp add: f_def)
      qed
    qed
    have b: "seg_end (f j) \<le> end'"
    proof (cases "j = n - 1")
      case True
      then show ?thesis by (simp add: f_def)
    next
      case False
      then have "m0 + j + 1 \<le> monthNumber end'" using j n by simp
      then show ?thesis
        using F2[of "m0 + j + 1"] last_ms_before_midnight[of "firstOfMonth (m0 + j + 1)"] False
        by (simp add: f_def)
    qed
    have c: "Day start \<le> Day (seg_start (f j))"
    proof (cases "j = 0")
      case True
      then show ?thesis by (simp add: f_def)
    next
      case False
      then show ?thesis using F4[of "m0 + j"] j by (simp add: f_def Day_midnight)
    qed
    show "seg_start (f j) \<le> seg_end (f j) \<and> seg_end (f j) \<le> end'
        \<and> Day start \<le> Day (seg_start (f j))"
      using a b c by simp
  next
    fix j k assume "j \<in> set [0..n - 1]" "k \<in> set [0..n - 1]" "j < k"
    then have jk: "0 \<le> j" "j < k" "k \<le> n - 1" by simp_all
    have "firstOfMonth (m0 + j + 1) \<le> firstOfMonth (m0 + k)"
      using jk by (intro firstOfMonth_mono) simp
    then show "Day (seg_end (f j)) < Day (seg_start (f k))"
      using jk by (simp add: f_def Day_midnight Day_last_ms)
  qed
qed

section \<open>Properties of the segmentation\<close>

subsection \<open>The two copies of the engine\<close>

lemma months_loops_equal:
  "calculateSegments_months i n start end' currentMonth
     = calculateDateSegments_months i n start end' currentMonth"
proof (induction i n start end' currentMonth rule: calculateSegments_months.induct)
  case (1 i n start end' currentMonth)
  show ?case
  proof (cases "i < n")
    case True
    show ?thesis
      by (subst calculateSegments_months.simps, subst calculateDateSegments_months.simps)
         (simp only: True if_True Let_def 1[OF True])
  next
    case False
    show ?thesis
      by (subst calculateSegments_months.simps, subst calculateDateSegments_months.simps)
         (simp only: False if_False)
  qed
qed

text \<open>
  Claim C10. For every pair of dates and every interval type, the picker's
  \<^verbatim>\<open>calculateSegments\<close> and the form's \<^verbatim>\<open>calculateDateSegments\<close> produce the same
  segment list and the same count: the state cells the picker writes, and the
  arguments it passes to its callback, are the pair the form's function returns.
\<close>

theorem picker_and_form_agree:
  "(segments (fst (calculateSegments start end' interval st)),
    segmentCount (fst (calculateSegments start end' interval st)))
     = calculateDateSegments start end' interval
   \<and> snd (calculateSegments start end' interval st)
     = (Some start, Some end', snd (calculateDateSegments start end' interval),
        fst (calculateDateSegments start end' interval))"
proof (cases "end' < start")
  case True
  then show ?thesis by (simp add: calculateSegments_def calculateDateSegments_def)
next
  case False
  then show ?thesis
    by (cases interval)
       (simp_all add: calculateSegments_def calculateDateSegments_def Let_def
          months_loops_equal)
qed

subsection \<open>An end date before the start date\<close>

lemma newDate_2024_May: "newDate 2024 4 1 = 1714521600000" "newDate 2024 4 10 = 1715299200000"
  by (simp_all add: newDate_def MakeDate_def MakeDay_def DayFromYear_def DaysInYear_def
        MonthStartDay_def msPerDay_def)

text \<open>
  Claim C3, amended. When the end date is before the start date, for every interval
  type, the picker sets the error message "End date cannot be before start date", the
  count 0 and \<^verbatim>\<open>null\<close> for the segments (no segment list: \<open>None\<close>, which the code keeps
  apart from the empty list \<open>Some []\<close> of a valid range without segments), and reports
  count 0 and \<^verbatim>\<open>null\<close> to its callback; nothing else of its state changes. The form's
  function returns \<^verbatim>\<open>null\<close> and the count 0, and no message: its result has no error
  field. No segment is computed.
\<close>

theorem invalid_range_reported:
  "end' < start \<Longrightarrow>
     calculateSegments start end' interval st =
       (st\<lparr>segmentCount := 0, segments := None,
            error := Some ''End date cannot be before start date''\<rparr>,
        (Some start, Some end', 0, None))
     \<and> calculateDateSegments start end' interval = (None, 0)"
  by (simp add: calculateSegments_def calculateDateSegments_def)

theorem invalid_range_reported_witness:
  "newDate 2024 4 1 < newDate 2024 4 10
   \<and> calculateSegments (newDate 2024 4 10) (newDate 2024 4 1) weekend initialPickerState =
       (initialPickerState\<lparr>segmentCount := 0, segments := None,
            error := Some ''End date cannot be before start date''\<rparr>,
        (Some (newDate 2024 4 10), Some (newDate 2024 4 1), 0, None))
   \<and> calculateDateSegments (newDate 2024 4 10) (newDate 2024 4 1) weekend = (None, 0)"
proof -
  have lt: "newDate 2024 4 1 < newDate 2024 4 10"
    by (simp add: newDate_2024_May)
  show ?thesis
    using invalid_range_reported[OF lt, of weekend initialPickerState] lt by blast
qed

text \<open>
  Claim C3 as stated has an empty segment list returned. For the range from 2024-05-10
  back to 2024-05-01 the picker's state and the form's result hold \<^verbatim>\<open>null\<close>, which is
  not the empty list.
\<close>

theorem invalid_range_segments_null:
  "segments (fst (calculateSegments (newDate 2024 4 10) (newDate 2024 4 1) day
       initialPickerState)) = None
   \<and> segments (fst (calculateSegments (newDate 2024 4 10) (newDate 2024 4 1) day
       initialPickerState)) \<noteq> Some []
   \<and> fst (calculateDateSegments (newDate 2024 4 10) (newDate 2024 4 1) day) = None
   \<and> fst (calculateDateSegments (newDate 2024 4 10) (newDate 2024 4 1) day) \<noteq> Some []"
  by (simp add: calculateSegments_def calculateDateSegments_def newDate_2024_May)

subsection \<open>One segment a day\<close>

lemma day_case_picker:
  "start \<le> end' \<Longrightarrow>
     segments (fst (calculateSegments start end' day st))
       = Some (map (\<lambda>date. \<lparr>seg_start = date, seg_end = date\<rparr>) (eachDayOfInterval start end'))
     \<and> segmentCount (fst (calculateSegments start end' day st))
       = differenceInDays end' start + 1"
  by (simp add: calculateSegments_def Let_def)

text \<open>
  For a valid range (\<open>start \<le> end\<close>) the \<^verbatim>\<open>'day'\<close> interval gives one segment for
  every calendar day from the day of the start to the day of the end, inclusive, each
  starting and ending at the local midnight of its day (start = end); in the picker and
  in the form. The count is not taken from that list: it is
  \<^verbatim>\<open>differenceInDays(end, start) + 1\<close>, the number of full days plus one, which is the
  number of the segments when the end's time of day is not before the start's, and one
  less when it is.
\<close>

lemma day_case_segments:
  assumes "start \<le> end'"
  shows "segments (fst (calculateSegments start end' day st))
       = Some (map (\<lambda>k. \<lparr>seg_start = MakeDate k 0, seg_end = MakeDate k 0\<rparr>)
                 [Day start..Day end'])"
    and "fst (calculateDateSegments start end' day)
       = Some (map (\<lambda>k. \<lparr>seg_start = MakeDate k 0, seg_end = MakeDate k 0\<rparr>)
                 [Day start..Day end'])"
    and "segmentCount (fst (calculateSegments start end' day st))
       = int (length [Day start..Day end'])
         - (if TimeWithinDay end' < TimeWithinDay start then 1 else 0)"
    and "snd (calculateDateSegments start end' day)
       = int (length [Day start..Day end'])
         - (if TimeWithinDay end' < TimeWithinDay start then 1 else 0)"
  using assms Day_mono[OF assms]
  by (simp_all add: day_case_picker calculateDateSegments_def eachDayOfInterval_eq comp_def
        differenceInDays_eq)

lemma day_count_is_length_iff:
  assumes "start \<le> end'"
  shows "differenceInDays end' start + 1 = int (length [Day start..Day end'])
     \<longleftrightarrow> TimeWithinDay start \<le> TimeWithinDay end'"
  using Day_mono[OF assms] by (simp add: differenceInDays_eq[OF assms])

text \<open>The range of two midnights from 2024-03-01 to 2024-03-05: five segments, count 5.\<close>

lemma day_example_midnights:
  "calculateDateSegments (newDate 2024 2 1) (newDate 2024 2 5) day
       = (Some [\<lparr>seg_start = newDate 2024 2 1, seg_end = newDate 2024 2 1\<rparr>,
                \<lparr>seg_start = newDate 2024 2 2, seg_end = newDate 2024 2 2\<rparr>,
                \<lparr>seg_start = newDate 2024 2 3, seg_end = newDate 2024 2 3\<rparr>,
                \<lparr>seg_start = newDate 2024 2 4, seg_end = newDate 2024 2 4\<rparr>,
                \<lparr>seg_start = newDate 2024 2 5, seg_end = newDate 2024 2 5\<rparr>], 5)"
  by code_simp

text \<open>
  Claim C5 says that the count of the \<^verbatim>\<open>'day'\<close> interval is the number of the calendar
  days from start to end, inclusive: one for every segment. The dates of the range carry
  a time of day. For the range from 2024-03-01 10:00:00.500 to 2024-03-05 10:00:00.000
  the code produces the five segments of the days from 03-01 to 03-05 and the count 4,
  in the picker and in the form: the last day is not a full day after the start, and
  \<^verbatim>\<open>differenceInDays\<close> counts full days. The other intervals count
  \<^verbatim>\<open>calculatedSegments.length\<close>.
\<close>

theorem day_count_one_short:
  "newDateTime 2024 2 1 10 0 0 500 \<le> newDateTime 2024 2 5 10 0 0 0
   \<and> segments (fst (calculateSegments (newDateTime 2024 2 1 10 0 0 500)
        (newDateTime 2024 2 5 10 0 0 0) day initialPickerState))
       = Some [\<lparr>seg_start = newDate 2024 2 1, seg_end = newDate 2024 2 1\<rparr>,
               \<lparr>seg_start = newDate 2024 2 2, seg_end = newDate 2024 2 2\<rparr>,
               \<lparr>seg_start = newDate 2024 2 3, seg_end = newDate 2024 2 3\<rparr>,
               \<lparr>seg_start = newDate 2024 2 4, seg_end = newDate 2024 2 4\<rparr>,
               \<lparr>seg_start = newDate 2024 2 5, seg_end = newDate 2024 2 5\<rparr>]
   \<and> segmentCount (fst (calculateSegments (newDateTime 2024 2 1 10 0 0 500)
        (newDateTime 2024 2 5 10 0 0 0) day initialPickerState)) = 4
   \<and> calculateDateSegments (newDateTime 2024 2 1 10 0 0 500)
        (newDateTime 2024 2 5 10 0 0 0) day
       = (Some [\<lparr>seg_start = newDate 2024 2 1, seg_end = newDate 2024 2 1\<rparr>,
                \<lparr>seg_start = newDate 2024 2 2, seg_end = newDate 2024 2 2\<rparr>,
                \<lparr>seg_start = newDate 2024 2 3, seg_end = newDate 2024 2 3\<rparr>,
                \<lparr>seg_start = newDate 2024 2 4, seg_end = newDate 2024 2 4\<rparr>,
                \<lparr>seg_start = newDate 2024 2 5, seg_end = newDate 2024 2 5\<rparr>], 4)"
  by code_simp

subsection \<open>One segment a weekend day\<close>




subsection \<open>One segment a week\<close>

lemma week_case_segment:
  "(let weekEnd = setDate (MakeDate d 0) (getDate (MakeDate d 0) + 4);
        adjustedEnd = (if weekEnd > end' then end' else weekEnd)
    in \<lparr>seg_start = MakeDate d 0, seg_end = adjustedEnd\<rparr>)
   = \<lparr>seg_start = MakeDate d 0, seg_end = min (MakeDate (d + 4) 0) end'\<rparr>"
proof -
  have "setDate (MakeDate d 0) (getDate (MakeDate d 0) + 4) = MakeDate (d + 4) 0"
    unfolding setDate_getDate by (simp add: MakeDate_def algebra_simps)
  then show ?thesis by (simp add: Let_def min_def)
qed

lemma week_case_picker:
  "start \<le> end' \<Longrightarrow>
     segments (fst (calculateSegments start end' week st))
       = Some (map (\<lambda>weekStart.
                 let weekEnd = setDate weekStart (getDate weekStart + 4);
                     adjustedEnd = (if weekEnd > end' then end' else weekEnd)
                 in \<lparr>seg_start = weekStart, seg_end = adjustedEnd\<rparr>)
               (eachWeekOfInterval start end' 1))
     \<and> segmentCount (fst (calculateSegments start end' week st))
       = int (length (eachWeekOfInterval start end' 1))"
  by (simp add: calculateSegments_def Let_def)




subsection \<open>A valid range with no segment\<close>




subsection \<open>Every segment inside the range, the segments in order\<close>

lemma form_segments_are_pickers:
  "fst (calculateDateSegments start end' interval)
     = segments (fst (calculateSegments start end' interval st))"
proof (cases "end' < start")
  case True
  then show ?thesis by (simp add: calculateSegments_def calculateDateSegments_def)
next
  case False
  then show ?thesis
    by (cases interval)
       (simp_all add: calculateSegments_def calculateDateSegments_def Let_def
          months_loops_equal)
qed

lemma week_map_eq:
  assumes "start \<le> end'"
  shows "map (\<lambda>weekStart.
         let weekEnd = setDate weekStart (getDate weekStart + 4);
             adjustedEnd = (if weekEnd > end' then end' else weekEnd)
         in \<lparr>seg_start = weekStart, seg_end = adjustedEnd\<rparr>)
       (eachWeekOfInterval start end' 1)
     = map (\<lambda>k. \<lparr>seg_start = MakeDate (Day (startOfWeek start 1) + 7 * int k) 0,
                    seg_end = min (MakeDate (Day (startOfWeek start 1) + 7 * int k + 4) 0) end'\<rparr>)
         [0..<nat ((Day (startOfWeek end' 1) - Day (startOfWeek start 1)) div 7 + 1)]"
  unfolding eachWeekOfInterval_eq[OF assms] map_map comp_def week_case_segment ..

lemma week_last_monday:
  assumes "start \<le> end'"
  shows "Day (startOfWeek start 1)
      + 7 * (int (nat ((Day (startOfWeek end' 1) - Day (startOfWeek start 1)) div 7 + 1)) - 1)
    = Day (startOfWeek end' 1)"
proof -
  have q: "(Day start + 3) div 7 \<le> (Day end' + 3) div 7"
    using Day_mono[OF assms] by (simp add: zdiv_mono1)
  have w: "Day (startOfWeek end' 1) - Day (startOfWeek start 1)
      = 7 * ((Day end' + 3) div 7 - (Day start + 3) div 7)"
    by (simp add: Day_startOfWeek)
  show ?thesis unfolding w using q by (simp add: Day_startOfWeek)
qed

lemma segments_orderedWithin:
  assumes le: "start \<le> end'"
  shows "\<exists>segs. segments (fst (calculateSegments start end' interval st)) = Some segs
     \<and> orderedWithin (if interval = week then Day (startOfWeek start 1) else Day start)
          end' segs"
proof (cases interval)
  case day
  have "segments (fst (calculateSegments start end' day st))
      = Some (map (\<lambda>k. \<lparr>seg_start = MakeDate k 0, seg_end = MakeDate k 0\<rparr>)
                (filter (\<lambda>k. True) [Day start..Day end']))"
    using le by (simp add: calculateSegments_def Let_def eachDayOfInterval_eq comp_def)
  then show ?thesis using day day_list_ordered[of start end' "\<lambda>k. True"] by simp
next
  case week
  have "segments (fst (calculateSegments start end' week st))
      = Some (map (\<lambda>k. \<lparr>seg_start = MakeDate (Day (startOfWeek start 1) + 7 * int k) 0,
                    seg_end = min (MakeDate (Day (startOfWeek start 1) + 7 * int k + 4) 0) end'\<rparr>)
         [0..<nat ((Day (startOfWeek end' 1) - Day (startOfWeek start 1)) div 7 + 1)])"
    using week_case_picker[OF le, of st] unfolding week_map_eq[OF le] by simp
  moreover have "Day (startOfWeek end' 1) \<le> Day end'"
    using monday_range(1)[of "Day end'"] by (simp add: Day_startOfWeek)
  then have "orderedWithin (Day (startOfWeek start 1)) end'
      (map (\<lambda>k. \<lparr>seg_start = MakeDate (Day (startOfWeek start 1) + 7 * int k) 0,
                    seg_end = min (MakeDate (Day (startOfWeek start 1) + 7 * int k + 4) 0) end'\<rparr>)
         [0..<nat ((Day (startOfWeek end' 1) - Day (startOfWeek start 1)) div 7 + 1)])"
    by (intro week_list_ordered) (simp only: week_last_monday[OF le])
  ultimately show ?thesis
    using week by simp
next
  case weekend
  have "segments (fst (calculateSegments start end' weekend st))
      = Some (map (\<lambda>k. \<lparr>seg_start = MakeDate k 0, seg_end = MakeDate k 0\<rparr>)
                (filter (\<lambda>k. isWeekend (MakeDate k 0)) [Day start..Day end']))"
    using le by (simp add: calculateSegments_def Let_def eachDayOfInterval_eq filter_map comp_def)
  then show ?thesis
    using weekend day_list_ordered[of start end' "\<lambda>k. isWeekend (MakeDate k 0)"] by simp
next
  case month
  then show ?thesis
    using month_case_picker(1)[OF le, of st] month_list_ordered[OF le] by simp
qed

text \<open>
  Claim C4, as amended. For a valid range and every interval type, the picker and the
  form produce the same list of segments, and in it: every segment starts no later than
  it ends and ends no later than the end of the range (so also at date granularity);
  for \<^verbatim>\<open>'day'\<close>, \<^verbatim>\<open>'weekend'\<close> and \<^verbatim>\<open>'month'\<close> every segment starts on the
  day of the start of the range or later; for \<^verbatim>\<open>'week'\<close> every segment starts on the
  Monday of the week of the start of the range or later; and the segments are in
  chronological order and pairwise disjoint: each ends on an earlier calendar day
  than every later one starts.
\<close>

theorem segments_in_range_and_ordered:
  assumes le: "start \<le> end'"
  shows "\<exists>segs. segments (fst (calculateSegments start end' interval st)) = Some segs
     \<and> fst (calculateDateSegments start end' interval) = Some segs
     \<and> (\<forall>seg \<in> set segs.
          seg_start seg \<le> seg_end seg
          \<and> seg_end seg \<le> end' \<and> Day (seg_end seg) \<le> Day end'
          \<and> (if interval = week then Day (startOfWeek start 1) else Day start)
              \<le> Day (seg_start seg))
     \<and> sorted_wrt (\<lambda>a b. Day (seg_end a) < Day (seg_start b)) segs"
proof -
  obtain segs where s: "segments (fst (calculateSegments start end' interval st)) = Some segs"
    and o: "orderedWithin (if interval = week then Day (startOfWeek start 1) else Day start)
          end' segs"
    using segments_orderedWithin[OF le] by blast
  have f: "fst (calculateDateSegments start end' interval) = Some segs"
    using form_segments_are_pickers[of start end' interval st] s by simp
  have d: "Day (seg_end seg) \<le> Day end'" if "seg \<in> set segs" for seg
    using o that unfolding orderedWithin_def by (auto intro: Day_mono)
  show ?thesis
    using s f o d unfolding orderedWithin_def by blast
qed

theorem segments_in_range_and_ordered_witness:
  "newDate 2023 11 15 \<le> newDate 2024 1 10
   \<and> (\<exists>segs. segments (fst (calculateSegments (newDate 2023 11 15) (newDate 2024 1 10) month
          (initialPickerState\<lparr>intervalType := month\<rparr>))) = Some segs
     \<and> fst (calculateDateSegments (newDate 2023 11 15) (newDate 2024 1 10) month) = Some segs
     \<and> (\<forall>seg \<in> set segs.
          seg_start seg \<le> seg_end seg
          \<and> seg_end seg \<le> newDate 2024 1 10 \<and> Day (seg_end seg) \<le> Day (newDate 2024 1 10)
          \<and> Day (newDate 2023 11 15) \<le> Day (seg_start seg))
     \<and> sorted_wrt (\<lambda>a b. Day (seg_end a) < Day (seg_start b)) segs)"
proof -
  have le: "newDate 2023 11 15 \<le> newDate 2024 1 10"
    by code_simp
  show ?thesis
    using segments_in_range_and_ordered[OF le, of month "initialPickerState\<lparr>intervalType := month\<rparr>"]
      le by simp
qed

text \<open>
  The claim as stated fails for \<^verbatim>\<open>'week'\<close>: for the range from Wednesday 2024-01-03
  to 2024-01-19 the first segment starts on Monday 2024-01-01, two days before the
  start of the range.
\<close>

theorem week_segment_starts_before_range:
  "newDate 2024 0 3 \<le> newDate 2024 0 19
   \<and> segments (fst (calculateSegments (newDate 2024 0 3) (newDate 2024 0 19) week
        (initialPickerState\<lparr>intervalType := week\<rparr>)))
       = Some [\<lparr>seg_start = newDate 2024 0 1, seg_end = newDate 2024 0 5\<rparr>,
               \<lparr>seg_start = newDate 2024 0 8, seg_end = newDate 2024 0 12\<rparr>,
               \<lparr>seg_start = newDate 2024 0 15, seg_end = newDate 2024 0 19\<rparr>]
   \<and> Day (newDate 2024 0 1) < Day (newDate 2024 0 3)"
  by code_simp

subsection \<open>The months of the range from 2023-12-15 to 2024-02-10\<close>

text \<open>
  Claim C1 says that a range whose start and end lie in different calendar months gets
  one segment for every calendar month it touches, three for the range from 2023-12-15
  to 2024-02-10. The code counts \<^verbatim>\<open>differenceInMonths(end, start) + 1\<close> segments, and
  \<^verbatim>\<open>differenceInMonths\<close> is the number of full months (here 1, from 12-15 to 01-15).
  So the code produces two segments for this range, the second running from
  2024-01-01 to 2024-02-10 across two calendar months, in the picker and in the form;
  and a single segment for the range from 2024-01-20 to 2024-02-10. Lemma
  \<open>month_case_picker\<close> gives the segments of every valid range.
\<close>

theorem month_example_two_segments:
  "differenceInMonths (newDate 2024 1 10) (newDate 2023 11 15) = 1
   \<and> calculateSegments (newDate 2023 11 15) (newDate 2024 1 10) month
        (initialPickerState\<lparr>intervalType := month\<rparr>)
     = (initialPickerState\<lparr>intervalType := month, segmentCount := 2,
          segments := Some [\<lparr>seg_start = newDate 2023 11 15,
                             seg_end = newDateTime 2023 11 31 23 59 59 999\<rparr>,
                            \<lparr>seg_start = newDate 2024 0 1, seg_end = newDate 2024 1 10\<rparr>]\<rparr>,
        (Some (newDate 2023 11 15), Some (newDate 2024 1 10), 2,
         Some [\<lparr>seg_start = newDate 2023 11 15,
                 seg_end = newDateTime 2023 11 31 23 59 59 999\<rparr>,
               \<lparr>seg_start = newDate 2024 0 1, seg_end = newDate 2024 1 10\<rparr>]))
   \<and> calculateDateSegments (newDate 2023 11 15) (newDate 2024 1 10) month
     = (Some [\<lparr>seg_start = newDate 2023 11 15,
                seg_end = newDateTime 2023 11 31 23 59 59 999\<rparr>,
              \<lparr>seg_start = newDate 2024 0 1, seg_end = newDate 2024 1 10\<rparr>], 2)
   \<and> calculateDateSegments (newDate 2024 0 20) (newDate 2024 1 10) month
     = (Some [\<lparr>seg_start = newDate 2024 0 20, seg_end = newDate 2024 1 10\<rparr>], 1)"
  by code_simp

subsection \<open>The preview of the items\<close>








text \<open>
  With more than 4 segments the text "+ N more ..." is rendered once for every segment
  after the third, not once: twice for 5 segments.
\<close>

lemma preview_of_five_segments:
  "previewItems (fst (calculateSegments (newDate 2024 2 1) (newDate 2024 2 5) day
         initialPickerState))
       = [''Daily rate - Mar 1'', ''Daily rate - Mar 2'', ''Daily rate - Mar 3'',
          ''+ 2 more day(s)...'', ''+ 2 more day(s)...'']"
  by code_simp

end
